theory Spec2Isabelle
  imports Complex_Main "HOL-Library.Char_ord" "HOL-Library.List_Lexorder"
begin

section \<open>The counter table \<open>metrics_daily\<close>\<close>

text \<open>
  \<open>migrations/0001_init.sql\<close> declares one table: a text key \<open>day\<close> and three integer
  counters. A row is a record, the table the list of its rows in insertion order. The
  counters are natural numbers: the code only ever stores 0 and adds 1, and SQLite's
  64-bit integers and JavaScript's numbers are exact on every count that can be reached
  by adding one.
\<close>

datatype column = Update_checks | Downloads | Errors

record counters =
  update_checks :: nat
  downloads :: nat
  errors :: nat

record metrics = counters +
  day :: string

type_synonym metrics_daily = "metrics list"

fun col :: "column \<Rightarrow> 'a counters_scheme \<Rightarrow> nat" where
  "col Update_checks r = update_checks r"
| "col Downloads r = downloads r"
| "col Errors r = errors r"

text \<open>\<open>SET c = c + 1\<close> on one row.\<close>

fun bump :: "column \<Rightarrow> metrics \<Rightarrow> metrics" where
  "bump Update_checks r = r\<lparr>update_checks := update_checks r + 1\<rparr>"
| "bump Downloads r = r\<lparr>downloads := downloads r + 1\<rparr>"
| "bump Errors r = r\<lparr>errors := errors r + 1\<rparr>"

text \<open>
  The three SQL statements of \<open>index.ts\<close>, as functions on the table.
  \<open>INSERT INTO metrics_daily(day, update_checks, downloads, errors) VALUES (?,0,0,0)
  ON CONFLICT(day) DO NOTHING\<close>:
\<close>

definition sql_insert :: "string \<Rightarrow> metrics_daily \<Rightarrow> metrics_daily" where
  "sql_insert d tbl =
     (if d \<in> set (map day tbl) then tbl
      else tbl @ [\<lparr>update_checks = 0, downloads = 0, errors = 0, day = d\<rparr>])"

text \<open>\<open>UPDATE metrics_daily SET c = c + 1 WHERE day = ?\<close>:\<close>

definition sql_update :: "column \<Rightarrow> string \<Rightarrow> metrics_daily \<Rightarrow> metrics_daily" where
  "sql_update c d tbl = map (\<lambda>r. if day r = d then bump c r else r) tbl"

text \<open>
  \<open>SELECT COALESCE(SUM(update_checks),0) AS update_checks, ... FROM metrics_daily
  WHERE day >= ? AND day <= ?\<close>. Text is compared byte by byte, a proper prefix being
  smaller: the lexicographic order of \<open>string\<close>. \<open>SUM\<close> over no row is \<open>NULL\<close>, which
  \<open>COALESCE\<close> turns into 0. An aggregate query without \<open>GROUP BY\<close> yields one row.
\<close>

definition sql_sum :: "(metrics \<Rightarrow> nat) \<Rightarrow> metrics list \<Rightarrow> nat option" where
  "sql_sum f rs = (if rs = [] then None else Some (sum_list (map f rs)))"

definition coalesce :: "nat option \<Rightarrow> nat \<Rightarrow> nat" where
  "coalesce v d = (case v of None \<Rightarrow> d | Some n \<Rightarrow> n)"

definition in_range :: "string \<Rightarrow> string \<Rightarrow> metrics \<Rightarrow> bool" where
  "in_range startDay endDay r = (startDay \<le> day r \<and> day r \<le> endDay)"

definition sql_select :: "string \<Rightarrow> string \<Rightarrow> metrics_daily \<Rightarrow> counters list" where
  "sql_select startDay endDay tbl =
     (let rs = filter (in_range startDay endDay) tbl
      in [\<lparr>update_checks = coalesce (sql_sum update_checks rs) 0,
           downloads = coalesce (sql_sum downloads rs) 0,
           errors = coalesce (sql_sum errors rs) 0\<rparr>])"

section \<open>The database binding and its failures\<close>

text \<open>
  A D1 statement is a request to a remote database: it either runs, or the promise
  rejects and the \<open>await\<close> throws. The world holds the table, the outcomes of the
  statements still to come (\<open>True\<close>: this one is rejected and leaves the table as it
  was; an exhausted list: all run) and the trace of the calls made so far, oldest first.
\<close>

datatype error = StorageError | NetworkError | SyntaxError | TypeError | WebhookStatus nat

text \<open>
  A JSON value as \<open>JSON.parse\<close> returns it. Of a number the code only tests whether it
  is zero; an object lists each of its keys once.
\<close>

datatype json =
    JNull
  | JBool bool
  | JNum rat
  | JStr string
  | JArr "json list"
  | JObj "(string \<times> json) list"

datatype event =
    Increment string column
  | Query string string
  | Get string
  | Post string json

record world =
  table :: metrics_daily
  faults :: "bool list"
  trace :: "event list"

definition rejected :: "world \<Rightarrow> bool" where
  "rejected w = (case faults w of [] \<Rightarrow> False | f # _ \<Rightarrow> f)"

definition emit :: "event \<Rightarrow> world \<Rightarrow> world" where
  "emit e w = w\<lparr>trace := trace w @ [e]\<rparr>"

text \<open>\<open>.run()\<close> of a writing statement.\<close>

definition run :: "(metrics_daily \<Rightarrow> metrics_daily) \<Rightarrow> world \<Rightarrow> (error + unit) \<times> world" where
  "run stmt w =
     (if rejected w then (Inl StorageError, w\<lparr>faults := tl (faults w)\<rparr>)
      else (Inr (), w\<lparr>table := stmt (table w), faults := tl (faults w)\<rparr>))"

text \<open>\<open>.first()\<close> of a query: its first row, or \<open>null\<close> when it has none.\<close>

definition first :: "(metrics_daily \<Rightarrow> 'a list) \<Rightarrow> world \<Rightarrow> (error + 'a option) \<times> world" where
  "first stmt w =
     (if rejected w then (Inl StorageError, w\<lparr>faults := tl (faults w)\<rparr>)
      else (Inr (case stmt (table w) of [] \<Rightarrow> None | r # _ \<Rightarrow> Some r),
            w\<lparr>faults := tl (faults w)\<rparr>))"

text \<open>
  \<open>incrementCounter\<close>: the insert, then the update; a rejected insert throws before the
  update is sent.
\<close>

definition incrementCounter :: "string \<Rightarrow> column \<Rightarrow> world \<Rightarrow> (error + unit) \<times> world" where
  "incrementCounter d c w =
     (case run (sql_insert d) (emit (Increment d c) w) of
        (Inl e, w1) \<Rightarrow> (Inl e, w1)
      | (Inr _, w1) \<Rightarrow> run (sql_update c d) w1)"

text \<open>\<open>queryTotals\<close>: \<open>row ?? { update_checks: 0, downloads: 0, errors: 0 }\<close>.\<close>

definition zero_totals :: counters where
  "zero_totals = \<lparr>update_checks = 0, downloads = 0, errors = 0\<rparr>"

definition queryTotals :: "string \<Rightarrow> string \<Rightarrow> world \<Rightarrow> (error + counters) \<times> world" where
  "queryTotals startDay endDay w =
     (case first (sql_select startDay endDay) (emit (Query startDay endDay) w) of
        (Inl e, w1) \<Rightarrow> (Inl e, w1)
      | (Inr row, w1) \<Rightarrow> (Inr (case row of None \<Rightarrow> zero_totals | Some r \<Rightarrow> r), w1))"

section \<open>Calendar: the \<open>Date\<close> functions the code calls\<close>

text \<open>
  A \<open>Date\<close> is its time value: milliseconds since 1970-01-01T00:00:00Z, an integer. The
  functions below are the abstract operations of the ECMAScript standard (section
  "Date Objects") that \<open>toISOString\<close>, \<open>getUTCFullYear\<close>, \<open>getUTCMonth\<close>,
  \<open>getUTCDate\<close>, \<open>setUTCDate\<close> and \<open>Date.UTC\<close> are defined by. Time values stay far inside
  the range in which a \<open>Date\<close> is valid (\<open>\<plusminus>8.64e15\<close>): they are the clock's, moved by at
  most six days.
\<close>

definition msPerDay :: int where
  "msPerDay = 86400000"

definition Day :: "int \<Rightarrow> int" where
  "Day t = t div msPerDay"

definition TimeWithinDay :: "int \<Rightarrow> int" where
  "TimeWithinDay t = t mod msPerDay"

definition DaysInYear :: "int \<Rightarrow> int" where
  "DaysInYear y =
     (if y mod 4 \<noteq> 0 then 365 else if y mod 100 \<noteq> 0 then 366
      else if y mod 400 \<noteq> 0 then 365 else 366)"

definition DayFromYear :: "int \<Rightarrow> int" where
  "DayFromYear y =
     365 * (y - 1970) + (y - 1969) div 4 - (y - 1901) div 100 + (y - 1601) div 400"

lemma div_succ:
  fixes a k :: int
  assumes "0 < k"
  shows "(a + 1) div k = a div k + (if (a + 1) mod k = 0 then 1 else 0)"
proof (cases "a mod k + 1 = k")
  case True
  have "a + 1 = k * (a div k + 1) + 0"
  proof -
    have "a = k * (a div k) + a mod k" by simp
    then have "a + 1 = k * (a div k) + (a mod k + 1)" by linarith
    also have "\<dots> = k * (a div k) + k" using True by simp
    finally show ?thesis by (simp add: algebra_simps)
  qed
  then have "(a + 1) div k = a div k + 1" "(a + 1) mod k = 0"
    using assms int_div_pos_eq [of "a + 1" k "a div k + 1" 0] int_mod_pos_eq [of "a + 1" k "a div k + 1" 0] by simp_all
  then show ?thesis by simp
next
  case False
  have r: "0 \<le> a mod k + 1" "a mod k + 1 < k"
    using False pos_mod_bound [OF assms, of a] pos_mod_sign [OF assms, of a] by auto
  have "a + 1 = k * (a div k) + (a mod k + 1)" by simp
  then have "(a + 1) div k = a div k" "(a + 1) mod k = a mod k + 1"
    using r int_div_pos_eq [of "a + 1" k "a div k" "a mod k + 1"] int_mod_pos_eq [of "a + 1" k "a div k" "a mod k + 1"] by simp_all
  then show ?thesis using r pos_mod_sign [OF assms, of a] by auto
qed

lemma mod_shift: "(y - k * c) mod k = y mod k" for y k c :: int
  by (simp add: mod_diff_eq [symmetric])

lemma div_step:
  fixes y k c :: int
  assumes "0 < k"
  shows "(y - k * c) div k = (y - k * c - 1) div k + (if y mod k = 0 then 1 else 0)"
  using div_succ [OF assms, of "y - k * c - 1"] mod_shift [of y k c] by simp

lemma m100: "y mod 100 = 0 \<Longrightarrow> y mod 4 = 0" for y :: int
  by (simp add: mod_eq_0_iff_dvd) (rule dvd_trans [of 4 100 y]; simp)
lemma m400: "y mod 400 = 0 \<Longrightarrow> y mod 100 = 0" for y :: int
  by (simp add: mod_eq_0_iff_dvd) (rule dvd_trans [of 100 400 y]; simp)

lemma DayFromYear_step: "DayFromYear (y + 1) = DayFromYear y + DaysInYear y"
proof -
  define a where "a = (y - 1969) div 4"
  define b where "b = (y - 1901) div 100"
  define c where "c = (y - 1601) div 400"
  define p where "p = (y mod 4 = 0)"
  define q where "q = (y mod 100 = 0)"
  define r where "r = (y mod 400 = 0)"
  have e4: "(y + 1 - 1969) div 4 = a + (if p then 1 else 0)"
    using div_step [of 4 y 492] by (simp add: a_def p_def)
  have e100: "(y + 1 - 1901) div 100 = b + (if q then 1 else 0)"
    using div_step [of 100 y 19] by (simp add: b_def q_def)
  have e400: "(y + 1 - 1601) div 400 = c + (if r then 1 else 0)"
    using div_step [of 400 y 4] by (simp add: c_def r_def)
  have qp: "q \<Longrightarrow> p" and rq: "r \<Longrightarrow> q"
    using m100 m400 by (auto simp: p_def q_def r_def)
  have lhs: "DayFromYear (y + 1) =
      365 * (y - 1969) + (a + (if p then 1 else 0)) - (b + (if q then 1 else 0)) + (c + (if r then 1 else 0))"
    unfolding DayFromYear_def e4 e100 e400 by simp
  have rhs: "DayFromYear y = 365 * (y - 1970) + a - b + c"
    unfolding DayFromYear_def a_def b_def c_def by simp
  have diy: "DaysInYear y = (if \<not> p then 365 else if \<not> q then 366 else if \<not> r then 365 else 366)"
    unfolding DaysInYear_def p_def q_def r_def by simp
  show ?thesis unfolding lhs rhs diy using qp rq by auto
qed

lemma DaysInYear_pos: "365 \<le> DaysInYear y"
  by (simp add: DaysInYear_def)

lemma DayFromYear_less: "DayFromYear y < DayFromYear (y + 1)"
  using DaysInYear_pos [of y] by (simp add: DayFromYear_step)

text \<open>
  \<open>YearFromTime t\<close> is the largest year \<open>y\<close> with \<open>DayFromYear y \<le> Day t\<close>: searched upwards
  from 1970 for a day at or after the epoch, downwards from 1969 before it.
\<close>

function year_up :: "int \<Rightarrow> int \<Rightarrow> int" where
  "year_up d y = (if DayFromYear (y + 1) \<le> d then year_up d (y + 1) else y)"
  by pat_completeness auto
termination
proof (relation "measure (\<lambda>(d, y). nat (d - DayFromYear y))")
  show "wf (measure (\<lambda>(d, y). nat (d - DayFromYear y)))" by simp
next
  fix d y :: int
  assume "DayFromYear (y + 1) \<le> d"
  then show "((d, y + 1), (d, y)) \<in> measure (\<lambda>(d, y). nat (d - DayFromYear y))"
    using DayFromYear_less [of y] by simp
qed

function year_down :: "int \<Rightarrow> int \<Rightarrow> int" where
  "year_down d y = (if DayFromYear y \<le> d then y else year_down d (y - 1))"
  by pat_completeness auto
termination
proof (relation "measure (\<lambda>(d, y). nat (DayFromYear y - d))")
  show "wf (measure (\<lambda>(d, y). nat (DayFromYear y - d)))" by simp
next
  fix d y :: int
  assume "\<not> DayFromYear y \<le> d"
  then show "((d, y - 1), (d, y)) \<in> measure (\<lambda>(d, y). nat (DayFromYear y - d))"
    using DayFromYear_less [of "y - 1"] by simp
qed

definition YearFromTime :: "int \<Rightarrow> int" where
  "YearFromTime t = (if 0 \<le> Day t then year_up (Day t) 1970 else year_down (Day t) 1969)"

definition InLeapYear :: "int \<Rightarrow> int" where
  "InLeapYear t = (if DaysInYear (YearFromTime t) = 366 then 1 else 0)"

definition DayWithinYear :: "int \<Rightarrow> int" where
  "DayWithinYear t = Day t - DayFromYear (YearFromTime t)"

text \<open>The number of days of the year before month \<open>m\<close> (0 is January), \<open>l\<close> being 1 in a leap year.\<close>

definition DaysBefore :: "int \<Rightarrow> int \<Rightarrow> int" where
  "DaysBefore l m =
     (if m = 0 then 0 else if m = 1 then 31 else if m = 2 then 59 + l
      else if m = 3 then 90 + l else if m = 4 then 120 + l else if m = 5 then 151 + l
      else if m = 6 then 181 + l else if m = 7 then 212 + l else if m = 8 then 243 + l
      else if m = 9 then 273 + l else if m = 10 then 304 + l else 334 + l)"

definition MonthFromTime :: "int \<Rightarrow> int" where
  "MonthFromTime t =
     (let d = DayWithinYear t; l = InLeapYear t in
      if d < 31 then 0 else if d < 59 + l then 1 else if d < 90 + l then 2
      else if d < 120 + l then 3 else if d < 151 + l then 4 else if d < 181 + l then 5
      else if d < 212 + l then 6 else if d < 243 + l then 7 else if d < 273 + l then 8
      else if d < 304 + l then 9 else if d < 334 + l then 10 else 11)"

definition DateFromTime :: "int \<Rightarrow> int" where
  "DateFromTime t = DayWithinYear t - DaysBefore (InLeapYear t) (MonthFromTime t) + 1"

text \<open>
  \<open>MakeDay year month date\<close>: the day number of the first of the month, plus \<open>date - 1\<close>;
  a month outside 0..11 carries into the year, a date outside the month into the
  neighbouring months.
\<close>

definition MakeDay :: "int \<Rightarrow> int \<Rightarrow> int \<Rightarrow> int" where
  "MakeDay year month date =
     (let ym = year + month div 12; mn = month mod 12 in
      DayFromYear ym + DaysBefore (if DaysInYear ym = 366 then 1 else 0) mn + date - 1)"

definition MakeDate :: "int \<Rightarrow> int \<Rightarrow> int" where
  "MakeDate d time = d * msPerDay + time"

definition getUTCFullYear :: "int \<Rightarrow> int" where
  "getUTCFullYear t = YearFromTime t"

definition getUTCMonth :: "int \<Rightarrow> int" where
  "getUTCMonth t = MonthFromTime t"

definition getUTCDate :: "int \<Rightarrow> int" where
  "getUTCDate t = DateFromTime t"

definition setUTCDate :: "int \<Rightarrow> int \<Rightarrow> int" where
  "setUTCDate t dt = MakeDate (MakeDay (YearFromTime t) (MonthFromTime t) dt) (TimeWithinDay t)"

text \<open>\<open>Date.UTC(year, month, date)\<close>: a year from 0 to 99 stands for 1900 + year.\<close>

definition Date_UTC :: "int \<Rightarrow> int \<Rightarrow> int \<Rightarrow> int" where
  "Date_UTC year month date =
     (let yr = (if 0 \<le> year \<and> year \<le> 99 then 1900 + year else year) in
      MakeDate (MakeDay yr month date) 0)"

text \<open>Decimal digits: \<open>pad k n\<close> is the last \<open>k\<close> digits of \<open>n\<close>, with leading zeros.\<close>

definition digit :: "nat \<Rightarrow> char" where
  "digit n = ''0123456789'' ! (n mod 10)"

fun pad :: "nat \<Rightarrow> nat \<Rightarrow> string" where
  "pad 0 n = []"
| "pad (Suc k) n = pad k (n div 10) @ [digit n]"

text \<open>
  \<open>toISOString\<close>: \<open>YYYY-MM-DDTHH:mm:ss.sssZ\<close>, and a sign with six digits for a year
  outside 0..9999.
\<close>

definition iso_year :: "int \<Rightarrow> string" where
  "iso_year y =
     (if 0 \<le> y \<and> y \<le> 9999 then pad 4 (nat y)
      else (if y < 0 then ''-'' else ''+'') @ pad 6 (nat \<bar>y\<bar>))"

definition iso_date :: "int \<Rightarrow> int \<Rightarrow> int \<Rightarrow> string" where
  "iso_date y m d = iso_year y @ ''-'' @ pad 2 (nat (m + 1)) @ ''-'' @ pad 2 (nat d)"

definition iso_time :: "int \<Rightarrow> string" where
  "iso_time ms =
     pad 2 (nat (ms div 3600000)) @ '':'' @ pad 2 (nat (ms div 60000 mod 60)) @ '':'' @
     pad 2 (nat (ms div 1000 mod 60)) @ ''.'' @ pad 3 (nat (ms mod 1000))"

definition toISOString :: "int \<Rightarrow> string" where
  "toISOString t =
     iso_date (YearFromTime t) (MonthFromTime t) (DateFromTime t) @ ''T'' @
     iso_time (TimeWithinDay t) @ ''Z''"

text \<open>\<open>utcDay\<close> and \<open>utcMonthStart\<close> of \<open>index.ts\<close>; \<open>slice(0, 10)\<close> is \<open>take 10\<close>.\<close>

definition utcDay :: "int \<Rightarrow> string" where
  "utcDay date = take 10 (toISOString date)"

definition utcMonthStart :: "int \<Rightarrow> string" where
  "utcMonthStart date =
     take 10 (toISOString (Date_UTC (getUTCFullYear date) (getUTCMonth date) 1))"

section \<open>Promises, \<open>await\<close> and \<open>try\<close>/\<open>catch\<close>\<close>

text \<open>
  An \<open>async\<close> function is a function of the world that returns a value or throws, and
  the world after it. \<open>await\<close> sequences, \<open>try_catch body handler\<close> is
  \<open>try { body } catch { handler }\<close>, and \<open>Promise_all\<close> starts both of its
  arguments, in order, and throws when one of them did.
\<close>

type_synonym 'a prog = "world \<Rightarrow> (error + 'a) \<times> world"

definition return :: "'a \<Rightarrow> 'a prog" where
  "return a w = (Inr a, w)"

definition throw :: "error \<Rightarrow> 'a prog" where
  "throw e w = (Inl e, w)"

definition await :: "'a prog \<Rightarrow> ('a \<Rightarrow> 'b prog) \<Rightarrow> 'b prog" where
  "await m k w = (case m w of (Inl e, w1) \<Rightarrow> (Inl e, w1) | (Inr a, w1) \<Rightarrow> k a w1)"

definition try_catch :: "'a prog \<Rightarrow> 'a prog \<Rightarrow> 'a prog" where
  "try_catch body handler w =
     (case body w of (Inl e, w1) \<Rightarrow> handler w1 | (Inr a, w1) \<Rightarrow> (Inr a, w1))"

definition Promise_all :: "'a prog \<Rightarrow> 'b prog \<Rightarrow> ('a \<times> 'b) prog" where
  "Promise_all p q w =
     (case p w of (r1, w1) \<Rightarrow>
      case q w1 of (r2, w2) \<Rightarrow>
        (case r1 of Inl e \<Rightarrow> Inl e
         | Inr a \<Rightarrow> (case r2 of Inl e \<Rightarrow> Inl e | Inr b \<Rightarrow> Inr (a, b)), w2))"

section \<open>The network and the platform\<close>

text \<open>
  What lies outside the worker and its database: the clock, the servers behind the
  two URLs, and the platform's URL parser. A server answers with a status and a body,
  which is JSON or not, or cannot be reached. The parser accepts a string as a URL or
  not (\<open>url_parses\<close>), and writes an accepted one back in its normal form (\<open>url_href\<close>:
  lower-case scheme and host, percent-encoded path).
\<close>

datatype reply = Unreachable | Reply nat "json option"

record outside =
  clock :: int
  get_reply :: "string \<Rightarrow> reply"
  post_reply :: "string \<Rightarrow> json \<Rightarrow> reply"
  url_parses :: "string \<Rightarrow> bool"
  url_href :: "string \<Rightarrow> string"

text \<open>The global \<open>fetch\<close>: it throws when the server cannot be reached.\<close>

definition http_fetch :: "event \<Rightarrow> reply \<Rightarrow> (nat \<times> json option) prog" where
  "http_fetch e r w =
     (case r of Unreachable \<Rightarrow> (Inl NetworkError, emit e w)
      | Reply st b \<Rightarrow> (Inr (st, b), emit e w))"

text \<open>\<open>res.ok\<close> and \<open>res.json()\<close>.\<close>

definition ok :: "nat \<Rightarrow> bool" where
  "ok st = (200 \<le> st \<and> st \<le> 299)"

definition res_json :: "json option \<Rightarrow> json prog" where
  "res_json b = (case b of None \<Rightarrow> throw SyntaxError | Some j \<Rightarrow> return j)"

text \<open>\<open>fetchManifest\<close>: the parsed manifest, or \<open>null\<close> on any failure.\<close>

definition fetchManifest :: "outside \<Rightarrow> string \<Rightarrow> json prog" where
  "fetchManifest x url =
     try_catch
       (await (http_fetch (Get url) (get_reply x url)) (\<lambda>(st, b).
          if \<not> ok st then return JNull else res_json b))
       (return JNull)"

section \<open>JavaScript values\<close>

text \<open>
  \<open>!v\<close> is \<open>\<not> truthy v\<close>. A value that may be \<open>undefined\<close> is a \<open>json option\<close>.
  \<open>get_member v k\<close> is \<open>v?.k\<close> for the keys the code reads (\<open>latest\<close>, \<open>download\<close>, \<open>url\<close>):
  \<open>undefined\<close> unless \<open>v\<close> is an object that has the key. \<open>nullish_or a b\<close> is \<open>a ?? b\<close>.
\<close>

fun truthy :: "json \<Rightarrow> bool" where
  "truthy JNull = False"
| "truthy (JBool b) = b"
| "truthy (JNum n) = (n \<noteq> 0)"
| "truthy (JStr s) = (s \<noteq> [])"
| "truthy (JArr _) = True"
| "truthy (JObj _) = True"

fun get_member :: "json option \<Rightarrow> string \<Rightarrow> json option" where
  "get_member (Some (JObj kvs)) k = map_of kvs k"
| "get_member _ k = None"

definition nullish_or :: "json option \<Rightarrow> json option \<Rightarrow> json option" where
  "nullish_or a b = (if a = None \<or> a = Some JNull then b else a)"

text \<open>
  \<open>(manifest as any)?.latest?.download?.url ?? (manifest as any)?.latest?.url\<close>, the
  value the \<open>/download/latest\<close> branch binds to \<open>latestUrl\<close>.
\<close>

definition download_url :: "json \<Rightarrow> json option" where
  "download_url manifest =
     get_member (get_member (get_member (Some manifest) ''latest'') ''download'') ''url''"

definition latest_url :: "json \<Rightarrow> json option" where
  "latest_url manifest = get_member (get_member (Some manifest) ''latest'') ''url''"

definition latestUrl :: "json \<Rightarrow> json option" where
  "latestUrl manifest = nullish_or (download_url manifest) (latest_url manifest)"

section \<open>Responses\<close>

datatype response = Response nat json | Redirect nat string

definition manifest_unavailable :: response where
  "manifest_unavailable =
     Response 503 (JObj [(''ok'', JBool False), (''error'', JStr ''manifest_unavailable'')])"

definition unauthorized :: response where
  "unauthorized = Response 401 (JObj [(''ok'', JBool False), (''error'', JStr ''unauthorized'')])"

definition not_found :: response where
  "not_found = Response 404 (JObj [(''ok'', JBool False), (''error'', JStr ''not_found'')])"

text \<open>
  \<open>Response.redirect(url, 302)\<close> parses \<open>url\<close>: it throws a \<open>TypeError\<close> on a string that is
  no URL, and else answers with the parsed URL, written back, as the \<open>Location\<close>.
\<close>

definition Response_redirect :: "outside \<Rightarrow> string \<Rightarrow> nat \<Rightarrow> response prog" where
  "Response_redirect x url st =
     (if url_parses x url then return (Redirect st (url_href x url)) else throw TypeError)"

definition totals_json :: "counters \<Rightarrow> json" where
  "totals_json t =
     JObj [(''update_checks'', JNum (of_nat (update_checks t))),
           (''downloads'', JNum (of_nat (downloads t))),
           (''errors'', JNum (of_nat (errors t)))]"

section \<open>The report windows\<close>

text \<open>
  The day keys \<open>yesterday\<close>, \<open>sevenDaysAgo\<close> and \<open>monthStart\<close>, computed from
  \<open>todayDate\<close> by the same lines in the \<open>/report\<close> branch and in \<open>scheduled\<close>.
\<close>

definition windows :: "int \<Rightarrow> string \<times> string \<times> string" where
  "windows todayDate =
     (let yesterdayDate = setUTCDate todayDate (getUTCDate todayDate - 1);
          yesterday = utcDay yesterdayDate;
          sevenDaysAgoDate = setUTCDate todayDate (getUTCDate todayDate - 6);
          sevenDaysAgo = utcDay sevenDaysAgoDate;
          monthStart = utcMonthStart todayDate
      in (yesterday, sevenDaysAgo, monthStart))"

section \<open>The HTTP handler\<close>

record request =
  req_method :: string
  pathname :: string
  admin_token :: "string option"

record env =
  MANIFEST_URL :: string
  DISCORD_WEBHOOK_URL :: string
  ADMIN_TOKEN :: string

definition fetch :: "outside \<Rightarrow> request \<Rightarrow> env \<Rightarrow> response prog" where
  "fetch x request env =
     (let today = utcDay (clock x) in
      if req_method request = ''GET'' \<and> pathname request = ''/update/check'' then
        await (try_catch (await (incrementCounter today Update_checks) (\<lambda>_. return False))
                 (return True)) (\<lambda>counterError.
        await (fetchManifest x (MANIFEST_URL env)) (\<lambda>manifest.
        await (if counterError
               then try_catch (incrementCounter today Errors) (return ())
               else return ()) (\<lambda>_.
        if \<not> truthy manifest then return manifest_unavailable
        else return (Response 200 manifest))))
      else if req_method request = ''GET'' \<and> pathname request = ''/download/latest'' then
        await (try_catch (await (incrementCounter today Downloads) (\<lambda>_. return False))
                 (return True)) (\<lambda>counterError.
        await (fetchManifest x (MANIFEST_URL env)) (\<lambda>manifest.
        await (if counterError
               then try_catch (incrementCounter today Errors) (return ())
               else return ()) (\<lambda>_.
        if \<not> truthy manifest then return manifest_unavailable
        else
          (case latestUrl manifest of
             Some (JStr u) \<Rightarrow>
               if u = [] then return manifest_unavailable else Response_redirect x u 302
           | _ \<Rightarrow> return manifest_unavailable))))
      else if req_method request = ''GET'' \<and> pathname request = ''/report'' then
        (let token = admin_token request in
         if ADMIN_TOKEN env = [] \<or> token \<noteq> Some (ADMIN_TOKEN env) then return unauthorized
         else
           (case windows (clock x) of (yesterday, sevenDaysAgo, monthStart) \<Rightarrow>
            await (Promise_all (queryTotals today today)
                  (Promise_all (queryTotals yesterday yesterday)
                  (Promise_all (queryTotals sevenDaysAgo today)
                               (queryTotals monthStart today))))
              (\<lambda>(todayTotals, yesterdayTotals, last7, mtd).
                 return (Response 200
                   (JObj [(''today'', totals_json todayTotals),
                          (''yesterday'', totals_json yesterdayTotals),
                          (''last_7_days'', totals_json last7),
                          (''month_to_date'', totals_json mtd)])))))
      else return not_found)"

section \<open>The scheduled job\<close>

function decimal :: "nat \<Rightarrow> string" where
  "decimal n = (if n < 10 then [digit n] else decimal (n div 10) @ [digit n])"
  by pat_completeness auto
termination
  by (relation "measure id") auto

fun join :: "string \<Rightarrow> string list \<Rightarrow> string" where
  "join sep [] = []"
| "join sep [l] = l"
| "join sep (l # m # ls) = l @ sep @ join sep (m # ls)"

text \<open>The characters of the message outside ASCII, as their UTF-8 bytes.\<close>

definition bar_chart :: string where
  "bar_chart = [CHR 0xF0, CHR 0x9F, CHR 0x93, CHR 0x8A]"

definition em_dash :: string where
  "em_dash = [CHR 0xE2, CHR 0x80, CHR 0x94]"

definition bullet :: string where
  "bullet = [CHR 0xE2, CHR 0x80, CHR 0xA2]"

definition arrow :: string where
  "arrow = [CHR 0xE2, CHR 0x86, CHR 0x92]"

definition totals_lines :: "counters \<Rightarrow> string list" where
  "totals_lines t =
     [''  '' @ bullet @ '' Update checks: '' @ decimal (update_checks t),
      ''  '' @ bullet @ '' Downloads: '' @ decimal (downloads t),
      ''  '' @ bullet @ '' Errors: '' @ decimal (errors t)]"

definition message :: "string \<Rightarrow> string \<Rightarrow> string \<Rightarrow> string \<Rightarrow> counters \<Rightarrow> counters \<Rightarrow> counters \<Rightarrow> string" where
  "message today yesterday sevenDaysAgo monthStart yesterdayTotals last7Totals mtdTotals =
     join [CHR 0x0A]
       ([bar_chart @ '' **BUS Core Lighthouse '' @ em_dash @ '' Daily Report ('' @ yesterday @ '')**'',
         [],
         ''**Yesterday ('' @ yesterday @ '')**''] @
        totals_lines yesterdayTotals @
        [[],
         ''**Last 7 days ('' @ sevenDaysAgo @ '' '' @ arrow @ '' '' @ today @ '')**''] @
        totals_lines last7Totals @
        [[],
         ''**Month to date ('' @ monthStart @ '' '' @ arrow @ '' '' @ today @ '')**''] @
        totals_lines mtdTotals)"

definition scheduled :: "outside \<Rightarrow> env \<Rightarrow> unit prog" where
  "scheduled x env =
     (let todayDate = clock x; today = utcDay todayDate in
      case windows todayDate of (yesterday, sevenDaysAgo, monthStart) \<Rightarrow>
      await (try_catch
               (await (Promise_all (queryTotals yesterday yesterday)
                      (Promise_all (queryTotals sevenDaysAgo today)
                                   (queryTotals monthStart today))) (\<lambda>r. return (Some r)))
               (await (try_catch (incrementCounter today Errors) (return ())) (\<lambda>_. return None)))
        (\<lambda>totals. case totals of
           None \<Rightarrow> return ()
         | Some (yesterdayTotals, last7Totals, mtdTotals) \<Rightarrow>
             (let body = JObj [(''content'', JStr (message today yesterday sevenDaysAgo monthStart
                                 yesterdayTotals last7Totals mtdTotals))]
              in try_catch
                   (await (http_fetch (Post (DISCORD_WEBHOOK_URL env) body)
                             (post_reply x (DISCORD_WEBHOOK_URL env) body)) (\<lambda>(st, b).
                      if \<not> ok st then throw (WebhookStatus st) else return ()))
                   (try_catch (incrementCounter today Errors) (return ())))))"

section \<open>Notions the statements use\<close>

text \<open>
  The row of a day, and the value of one of its counters; a day without a row counts 0.
\<close>

definition row_of :: "string \<Rightarrow> metrics_daily \<Rightarrow> metrics option" where
  "row_of d tbl = find (\<lambda>r. day r = d) tbl"

definition counter :: "metrics_daily \<Rightarrow> string \<Rightarrow> column \<Rightarrow> nat" where
  "counter tbl d c = (case row_of d tbl of None \<Rightarrow> 0 | Some r \<Rightarrow> col c r)"

text \<open>\<open>n\<close> calls of \<open>incrementCounter\<close> one after the other, up to the first that throws.\<close>

fun increments :: "nat \<Rightarrow> string \<Rightarrow> column \<Rightarrow> world \<Rightarrow> (error + unit) \<times> world" where
  "increments 0 d c w = (Inr (), w)"
| "increments (Suc n) d c w =
     (case incrementCounter d c w of
        (Inl e, w1) \<Rightarrow> (Inl e, w1)
      | (Inr _, w1) \<Rightarrow> increments n d c w1)"

text \<open>
  No row is lost and no counter of a row goes down: the rows of the old table are the
  first rows of the new one, with their keys and with counters at least as large.
\<close>

definition row_le :: "metrics \<Rightarrow> metrics \<Rightarrow> bool" where
  "row_le r r' =
     (day r' = day r \<and> update_checks r \<le> update_checks r' \<and> downloads r \<le> downloads r' \<and>
      errors r \<le> errors r')"

definition no_decrease :: "metrics_daily \<Rightarrow> metrics_daily \<Rightarrow> bool" where
  "no_decrease t t' = (length t \<le> length t' \<and> list_all2 row_le t (take (length t) t'))"

text \<open>
  What \<open>fetchManifest\<close> returns for a reply of the manifest server, and when the
  fetch counts as failed: the server is not reached, its status is not in 200..299, or
  the body is not JSON.
\<close>

definition manifest_of :: "reply \<Rightarrow> json" where
  "manifest_of r =
     (case r of Unreachable \<Rightarrow> JNull
      | Reply st b \<Rightarrow> if \<not> ok st then JNull else (case b of None \<Rightarrow> JNull | Some j \<Rightarrow> j))"

definition fetch_failed :: "reply \<Rightarrow> bool" where
  "fetch_failed r = (case r of Unreachable \<Rightarrow> True | Reply st b \<Rightarrow> \<not> ok st \<or> b = None)"

text \<open>
  \<open>fails_within n w\<close>: D1 rejects one of the next \<open>n\<close> statements. \<open>after_queries es w\<close>:
  the world once the queries \<open>es\<close> have been sent. \<open>delivered r\<close>: the webhook answered
  with a success status.
\<close>

definition fails_within :: "nat \<Rightarrow> world \<Rightarrow> bool" where
  "fails_within n w = (True \<in> set (take n (faults w)))"

definition after_queries :: "event list \<Rightarrow> world \<Rightarrow> world" where
  "after_queries es w = w\<lparr>trace := trace w @ es, faults := drop (length es) (faults w)\<rparr>"

definition delivered :: "reply \<Rightarrow> bool" where
  "delivered r = (case r of Unreachable \<Rightarrow> False | Reply st b \<Rightarrow> ok st)"

text \<open>
  \<open>at_path ks j\<close>: the value found in \<open>j\<close> by following the keys \<open>ks\<close> through nested
  objects, if there is one. \<open>absent v\<close>: the path holds nothing, or \<open>null\<close>.
  \<open>redirect_target\<close>: the value at \<open>latest.download.url\<close> or, if that is absent, the value
  at \<open>latest.url\<close>.
\<close>

fun at_path :: "string list \<Rightarrow> json \<Rightarrow> json option" where
  "at_path [] j = Some j"
| "at_path (k # ks) (JObj kvs) = (case map_of kvs k of None \<Rightarrow> None | Some v \<Rightarrow> at_path ks v)"
| "at_path (k # ks) _ = None"

definition absent :: "json option \<Rightarrow> bool" where
  "absent v = (v = None \<or> v = Some JNull)"

definition redirect_target :: "json \<Rightarrow> json option" where
  "redirect_target manifest =
     (if absent (at_path [''latest'', ''download'', ''url''] manifest)
      then at_path [''latest'', ''url''] manifest
      else at_path [''latest'', ''download'', ''url''] manifest)"

text \<open>
  An instant whose UTC day lies from 1970-01-01 to 9999-12-31, where \<open>utcDay\<close> has the
  form \<open>YYYY-MM-DD\<close>: 2932897 is the day number of 10000-01-01.
\<close>

definition in_era :: "int \<Rightarrow> bool" where
  "in_era t = (0 \<le> Day t \<and> Day t < 2932897)"

text \<open>
  The month as a function of the day within the year, and what \<open>k\<close> successful
  increments of counter \<open>c\<close> on a fresh day \<open>d\<close> leave in the table: both serve the proofs.
\<close>

definition month_of :: "int \<Rightarrow> int \<Rightarrow> int" where
  "month_of l d =
     (if d < 31 then 0 else if d < 59 + l then 1 else if d < 90 + l then 2
      else if d < 120 + l then 3 else if d < 151 + l then 4 else if d < 181 + l then 5
      else if d < 212 + l then 6 else if d < 243 + l then 7 else if d < 273 + l then 8
      else if d < 304 + l then 9 else if d < 334 + l then 10 else 11)"

definition counted :: "string \<Rightarrow> column \<Rightarrow> nat \<Rightarrow> metrics_daily \<Rightarrow> bool" where
  "counted d c k t =
     (let rs = filter (\<lambda>r. day r = d) t in
      (rs = [] \<and> k = 0) \<or> (\<exists>r. rs = [r] \<and> col c r = k \<and> (\<forall>c'. c' \<noteq> c \<longrightarrow> col c' r = 0)))"

text \<open>
  Concrete inputs for the examples: a table with two days, the same table after three
  error increments on a third day, the clock at 2025-03-15T00:00:00Z with servers that
  cannot be reached, or with a manifest server that serves a given manifest.
\<close>

definition w_ex :: world where
  "w_ex =
     \<lparr>table = [\<lparr>update_checks = 7, downloads = 3, errors = 1, day = ''2025-03-14''\<rparr>,
               \<lparr>update_checks = 2, downloads = 0, errors = 0, day = ''2025-03-15''\<rparr>],
      faults = [], trace = []\<rparr>"

definition w_ex3 :: world where
  "w_ex3 =
     \<lparr>table = [\<lparr>update_checks = 7, downloads = 3, errors = 1, day = ''2025-03-14''\<rparr>,
               \<lparr>update_checks = 2, downloads = 0, errors = 0, day = ''2025-03-15''\<rparr>,
               \<lparr>update_checks = 0, downloads = 0, errors = 3, day = ''2025-03-16''\<rparr>],
      faults = [],
      trace = [Increment ''2025-03-16'' Errors, Increment ''2025-03-16'' Errors,
               Increment ''2025-03-16'' Errors]\<rparr>"

definition x_down :: outside where
  "x_down = \<lparr>clock = 1741996800000, get_reply = (\<lambda>_. Unreachable),
              post_reply = (\<lambda>_ _. Unreachable), url_parses = (\<lambda>_. True),
              url_href = (\<lambda>u. u)\<rparr>"

definition env_ex :: env where
  "env_ex = \<lparr>MANIFEST_URL = ''https://example.com/manifest.json'',
             DISCORD_WEBHOOK_URL = ''https://example.com/hook'', ADMIN_TOKEN = ''s3cret''\<rparr>"

definition x_serving :: "json \<Rightarrow> outside" where
  "x_serving manifest = x_down\<lparr>get_reply := (\<lambda>_. Reply 200 (Some manifest))\<rparr>"

text \<open>The same, with a parser that accepts the strings that begin with \<open>https://\<close>.\<close>

definition x_strict :: "json \<Rightarrow> outside" where
  "x_strict manifest = (x_serving manifest)\<lparr>url_parses := (\<lambda>u. take 8 u = ''https://'')\<rparr>"

section \<open>Facts about the table and its statements\<close>

lemma in_range_same: "in_range d d r \<longleftrightarrow> day r = d"
  by (auto simp: in_range_def)

lemma col_bump: "col c' (bump c r) = (if c' = c then col c r + 1 else col c' r)"
  by (cases c; cases c'; simp)

lemma day_bump: "day (bump c r) = day r"
  by (cases c; simp)

lemma filter_other_insert: "filter (\<lambda>r. day r \<noteq> d) (sql_insert d t) = filter (\<lambda>r. day r \<noteq> d) t"
  by (simp add: sql_insert_def)

lemma filter_other_update: "filter (\<lambda>r. day r \<noteq> d) (sql_update c d t) = filter (\<lambda>r. day r \<noteq> d) t"
  by (induction t) (simp_all add: sql_update_def day_bump)

lemma filter_same_insert:
  "filter (\<lambda>r. day r = d) (sql_insert d t) =
     (if d \<in> set (map day t) then filter (\<lambda>r. day r = d) t
      else [\<lparr>update_checks = 0, downloads = 0, errors = 0, day = d\<rparr>])"
proof -
  have "d \<notin> set (map day t) \<Longrightarrow> filter (\<lambda>r. day r = d) t = []"
    by (induction t) auto
  then show ?thesis by (simp add: sql_insert_def)
qed

lemma filter_same_update:
  "filter (\<lambda>r. day r = d) (sql_update c d t) = map (bump c) (filter (\<lambda>r. day r = d) t)"
  by (induction t) (simp_all add: sql_update_def day_bump)

lemma map_day_update: "map day (sql_update c d t) = map day t"
  by (induction t) (simp_all add: sql_update_def day_bump)

lemma coalesce_sum: "coalesce (sql_sum f rs) 0 = sum_list (map f rs)"
  by (simp add: coalesce_def sql_sum_def)

lemma sql_select_eq:
  "sql_select a b t =
     [\<lparr>update_checks = sum_list (map update_checks (filter (in_range a b) t)),
       downloads = sum_list (map downloads (filter (in_range a b) t)),
       errors = sum_list (map errors (filter (in_range a b) t))\<rparr>]"
  by (simp add: sql_select_def coalesce_sum Let_def)

lemma col_fun:
  "col Update_checks = update_checks" "col Downloads = downloads" "col Errors = errors"
  by (rule ext, simp)+

lemma col_select:
  "col c (hd (sql_select a b t)) = sum_list (map (col c) (filter (in_range a b) t))"
  by (cases c) (simp_all add: sql_select_eq col_fun)

lemma rejected_emit [simp]: "rejected (emit e w) = rejected w"
  by (simp add: rejected_def emit_def)

lemma table_emit [simp]: "table (emit e w) = table w"
  by (simp add: emit_def)

lemma faults_emit [simp]: "faults (emit e w) = faults w"
  by (simp add: emit_def)

lemma trace_emit [simp]: "trace (emit e w) = trace w @ [e]"
  by (simp add: emit_def)

text \<open>The three outcomes of incrementCounter.\<close>

lemma incrementCounter_cases:
  "incrementCounter d c w =
     (if rejected w then
        (Inl StorageError, w\<lparr>trace := trace w @ [Increment d c], faults := tl (faults w)\<rparr>)
      else if rejected (w\<lparr>faults := tl (faults w)\<rparr>) then
        (Inl StorageError,
         w\<lparr>trace := trace w @ [Increment d c], table := sql_insert d (table w),
           faults := tl (tl (faults w))\<rparr>)
      else
        (Inr (),
         w\<lparr>trace := trace w @ [Increment d c], table := sql_update c d (sql_insert d (table w)),
           faults := tl (tl (faults w))\<rparr>))"
  by (simp add: incrementCounter_def run_def emit_def rejected_def)

lemma queryTotals_cases:
  "queryTotals a b w =
     (if rejected w then
        (Inl StorageError, w\<lparr>trace := trace w @ [Query a b], faults := tl (faults w)\<rparr>)
      else
        (Inr (hd (sql_select a b (table w))),
         w\<lparr>trace := trace w @ [Query a b], faults := tl (faults w)\<rparr>))"
  by (simp add: queryTotals_def first_def emit_def rejected_def sql_select_eq)

lemma row_of_update: "row_of d' (sql_update c d t) = (if d' = d then map_option (bump c) (row_of d t) else row_of d' t)"
  by (induction t) (auto simp: row_of_def sql_update_def day_bump)

lemma row_of_None: "row_of d t = None \<longleftrightarrow> d \<notin> set (map day t)"
  by (induction t) (auto simp: row_of_def)

lemma row_of_insert:
  "row_of d' (sql_insert d t) =
     (if d' = d \<and> d \<notin> set (map day t) then Some \<lparr>update_checks = 0, downloads = 0, errors = 0, day = d\<rparr>
      else row_of d' t)"
proof -
  have "find P (xs @ [y]) = (case find P xs of None \<Rightarrow> (if P y then Some y else None) | Some x \<Rightarrow> Some x)" for P and xs :: "metrics list" and y
    by (induction xs) auto
  then show ?thesis
    using row_of_None [of d t] by (auto simp: sql_insert_def row_of_def split: option.splits)
qed

lemma col_zero: "col c \<lparr>update_checks = 0, downloads = 0, errors = 0, day = d\<rparr> = 0"
  by (cases c) simp_all

lemma row_of_None_image: "row_of d t = None \<longleftrightarrow> d \<notin> day ` set t"
  using row_of_None [of d t] by simp

lemma not_in_days: "d \<notin> day ` set t \<longleftrightarrow> row_of d t = None"
  using row_of_None [of d t] by simp

lemma in_range_same_fun: "in_range d d = (\<lambda>r. day r = d)"
  by (rule ext) (simp add: in_range_same)

text \<open>What N increments leave in the rows of the day.\<close>

lemma counted_step:
  assumes "counted d c k t"
  shows "counted d c (Suc k) (sql_update c d (sql_insert d t))"
proof (cases "filter (\<lambda>r. day r = d) t = []")
  case True
  then have "d \<notin> set (map day t)"
    by (induction t) (auto split: if_splits)
  with True assms show ?thesis
    by (simp add: counted_def filter_same_update filter_same_insert col_bump col_zero)
next
  case False
  then have "d \<in> set (map day t)"
    by (induction t) (auto split: if_splits)
  moreover from False assms obtain r where
    "filter (\<lambda>r. day r = d) t = [r]" "col c r = k" "\<forall>c'. c' \<noteq> c \<longrightarrow> col c' r = 0"
    by (auto simp: counted_def)
  ultimately show ?thesis
    by (simp add: counted_def filter_same_update filter_same_insert col_bump)
qed

lemma increments_counted:
  "increments n d c w = (Inr (), w') \<Longrightarrow> counted d c k (table w) \<Longrightarrow> counted d c (k + n) (table w')"
proof (induction n arbitrary: w k)
  case 0
  then show ?case by simp
next
  case (Suc n)
  from Suc.prems(1) obtain w1 where
    step: "incrementCounter d c w = (Inr (), w1)" and rest: "increments n d c w1 = (Inr (), w')"
    by (auto split: prod.splits sum.splits)
  from step have "table w1 = sql_update c d (sql_insert d (table w))"
    by (auto simp: incrementCounter_cases split: if_splits)
  with Suc.prems(2) have "counted d c (Suc k) (table w1)"
    by (simp add: counted_step)
  from Suc.IH [OF rest this] show ?case by simp
qed

lemma counted_sum:
  assumes "counted d c k t"
  shows "sum_list (map (col c') (filter (\<lambda>r. day r = d) t)) = (if c' = c then k else 0)"
proof (cases "filter (\<lambda>r. day r = d) t = []")
  case True
  with assms show ?thesis by (simp add: counted_def)
next
  case False
  with assms obtain r where
    "filter (\<lambda>r. day r = d) t = [r]" "col c r = k" "\<forall>c'. c' \<noteq> c \<longrightarrow> col c' r = 0"
    by (auto simp: counted_def)
  then show ?thesis by simp
qed

lemma counted_start: "d \<notin> set (map day t) \<Longrightarrow> counted d c 0 t"
proof -
  assume "d \<notin> set (map day t)"
  then have "filter (\<lambda>r. day r = d) t = []"
    by (induction t) auto
  then show ?thesis by (simp add: counted_def)
qed

lemma increments_sum:
  assumes "d \<notin> set (map day (table w))" and "increments n d c w = (Inr (), w')" and "\<not> rejected w'"
  shows "\<exists>t. fst (queryTotals d d w') = Inr t \<and> col c t = n \<and> (\<forall>c'. c' \<noteq> c \<longrightarrow> col c' t = 0)"
proof -
  have "counted d c (0 + n) (table w')"
    using increments_counted [OF assms(2) counted_start [OF assms(1)]] .
  then have "col c' (hd (sql_select d d (table w'))) = (if c' = c then n else 0)" for c'
    by (simp add: col_select in_range_same_fun counted_sum)
  then show ?thesis using assms(3) by (simp add: queryTotals_cases)
qed

text \<open>no_decrease is a preorder, and each statement respects it.\<close>

lemma row_le_refl: "row_le r r"
  by (simp add: row_le_def)

lemma row_le_trans: "row_le a b \<Longrightarrow> row_le b c \<Longrightarrow> row_le a c"
  by (auto simp: row_le_def)

lemma row_le_bump: "row_le r (bump c r)"
  by (cases c) (simp_all add: row_le_def)

lemma no_decrease_refl: "no_decrease t t"
  by (simp add: no_decrease_def list_all2_same row_le_refl)

lemma no_decrease_trans:
  assumes "no_decrease a b" and "no_decrease b c"
  shows "no_decrease a c"
proof -
  from assms have len: "length a \<le> length b" "length b \<le> length c"
    and ab: "list_all2 row_le a (take (length a) b)"
    and bc: "list_all2 row_le b (take (length b) c)"
    by (auto simp: no_decrease_def)
  from bc have "list_all2 row_le (take (length a) b) (take (length a) (take (length b) c))"
    by (rule list_all2_takeI)
  also have "take (length a) (take (length b) c) = take (length a) c"
    using len by (simp add: min_def)
  finally have "list_all2 row_le (take (length a) b) (take (length a) c)" .
  with ab have "list_all2 row_le a (take (length a) c)"
    by (rule list_all2_trans [rotated]) (rule row_le_trans)
  with len show ?thesis by (simp add: no_decrease_def)
qed

lemma no_decrease_insert: "no_decrease t (sql_insert d t)"
  by (simp add: no_decrease_def sql_insert_def list_all2_same row_le_refl)

lemma no_decrease_update: "no_decrease t (sql_update c d t)"
  by (simp add: no_decrease_def sql_update_def list_all2_map2 list_all2_same row_le_refl row_le_bump)

section \<open>Facts about the calendar\<close>

lemma DayFromYear_mono_nat: "DayFromYear y \<le> DayFromYear (y + int n)"
proof (induction n)
  case 0
  then show ?case by simp
next
  case (Suc n)
  have "DayFromYear (y + int n) < DayFromYear (y + int n + 1)"
    by (rule DayFromYear_less)
  moreover have "y + int (Suc n) = y + int n + 1" by simp
  ultimately show ?case using Suc by (simp only:)
qed

lemma DayFromYear_mono: "y \<le> y' \<Longrightarrow> DayFromYear y \<le> DayFromYear y'"
  using DayFromYear_mono_nat [of y "nat (y' - y)"] by simp

lemma DayFromYear_1970: "DayFromYear 1970 = 0"
  by (simp add: DayFromYear_def)

lemma DayFromYear_10000: "DayFromYear 10000 = 2932897"
  by (simp add: DayFromYear_def)

lemma year_up_bounds:
  "DayFromYear y \<le> d \<Longrightarrow> DayFromYear (year_up d y) \<le> d \<and> d < DayFromYear (year_up d y + 1)"
proof (induction d y rule: year_up.induct)
  case (1 d y)
  show ?case
  proof (cases "DayFromYear (y + 1) \<le> d")
    case True
    with "1.IH" have "DayFromYear (year_up d (y + 1)) \<le> d \<and> d < DayFromYear (year_up d (y + 1) + 1)"
      by simp
    moreover have "year_up d y = year_up d (y + 1)"
      using True by (subst year_up.simps) simp
    ultimately show ?thesis by simp
  next
    case False
    then have "year_up d y = y"
      by (subst year_up.simps) simp
    with False "1.prems" show ?thesis by simp
  qed
qed

lemma year_down_bounds:
  "d < DayFromYear (y + 1) \<Longrightarrow> DayFromYear (year_down d y) \<le> d \<and> d < DayFromYear (year_down d y + 1)"
proof (induction d y rule: year_down.induct)
  case (1 d y)
  show ?case
  proof (cases "DayFromYear y \<le> d")
    case True
    then have "year_down d y = y"
      by (subst year_down.simps) simp
    with True "1.prems" show ?thesis by simp
  next
    case False
    with "1.IH" have "DayFromYear (year_down d (y - 1)) \<le> d \<and> d < DayFromYear (year_down d (y - 1) + 1)"
      by simp
    moreover have "year_down d y = year_down d (y - 1)"
      using False by (subst year_down.simps) simp
    ultimately show ?thesis by simp
  qed
qed

lemma YearFromTime_bounds:
  "DayFromYear (YearFromTime t) \<le> Day t \<and> Day t < DayFromYear (YearFromTime t + 1)"
proof (cases "0 \<le> Day t")
  case True
  then show ?thesis
    using year_up_bounds [of 1970 "Day t"] by (simp add: YearFromTime_def DayFromYear_1970)
next
  case False
  then show ?thesis
    using year_down_bounds [of "Day t" 1969] by (simp add: YearFromTime_def DayFromYear_1970)
qed

lemma year_unique:
  assumes "DayFromYear y \<le> d" and "d < DayFromYear (y + 1)"
    and "DayFromYear y' \<le> d" and "d < DayFromYear (y' + 1)"
  shows "y = y'"
proof (rule ccontr)
  assume "y \<noteq> y'"
  then consider "y + 1 \<le> y'" | "y' + 1 \<le> y" by linarith
  then show False
  proof cases
    case 1
    from DayFromYear_mono [OF 1] assms show False by linarith
  next
    case 2
    from DayFromYear_mono [OF 2] assms show False by linarith
  qed
qed

lemma YearFromTime_eq:
  "DayFromYear y \<le> Day t \<Longrightarrow> Day t < DayFromYear (y + 1) \<Longrightarrow> YearFromTime t = y"
  using YearFromTime_bounds [of t] year_unique [of "YearFromTime t" "Day t" y] by simp

text \<open>setUTCDate by a date relative to the current one moves the time value by whole days.\<close>

lemma MonthFromTime_range: "0 \<le> MonthFromTime t \<and> MonthFromTime t \<le> 11"
  by (simp add: MonthFromTime_def Let_def)

lemma MakeDay_current:
  "MakeDay (YearFromTime t) (MonthFromTime t) (DateFromTime t - k) = Day t - k"
proof -
  have m: "MonthFromTime t div 12 = 0" "MonthFromTime t mod 12 = MonthFromTime t"
    using MonthFromTime_range [of t] by simp_all
  show ?thesis
    by (simp add: MakeDay_def Let_def m DateFromTime_def InLeapYear_def DayWithinYear_def)
qed

lemma setUTCDate_shift: "setUTCDate t (getUTCDate t - k) = t - k * msPerDay"
proof -
  have "t = Day t * msPerDay + TimeWithinDay t"
    by (simp add: Day_def TimeWithinDay_def)
  then show ?thesis
    by (simp add: setUTCDate_def getUTCDate_def MakeDay_current MakeDate_def algebra_simps)
qed

lemma Day_shift: "Day (t - k * msPerDay) = Day t - k"
proof -
  have "msPerDay \<noteq> 0"
    by (simp add: msPerDay_def)
  from div_mult_self1 [OF this, of t "- k"] show ?thesis
    by (simp add: Day_def)
qed

text \<open>The month as a function of the day within the year.\<close>

lemma MonthFromTime_month_of: "MonthFromTime t = month_of (InLeapYear t) (DayWithinYear t)"
  by (simp add: MonthFromTime_def month_of_def Let_def)

lemma InLeapYear_cases: "InLeapYear t = 0 \<or> InLeapYear t = 1"
  by (simp add: InLeapYear_def)

lemma month_cases:
  "0 \<le> m \<Longrightarrow> m \<le> 11 \<Longrightarrow>
   m = 0 \<or> m = 1 \<or> m = 2 \<or> m = 3 \<or> m = 4 \<or> m = 5 \<or> m = 6 \<or> m = 7 \<or> m = 8 \<or> m = 9 \<or>
   m = 10 \<or> m = (11::int)"
  by arith

lemma month_of_range: "0 \<le> month_of l d \<and> month_of l d \<le> 11"
  by (simp add: month_of_def)

lemma month_of_start:
  assumes "l = 0 \<or> l = 1" and "0 \<le> m" and "m \<le> 11"
  shows "month_of l (DaysBefore l m) = m"
  using month_cases [OF assms(2,3)] assms(1)
  by (elim disjE) (simp_all add: month_of_def DaysBefore_def)

lemma DaysBefore_nonneg: "l = 0 \<or> l = 1 \<Longrightarrow> 0 \<le> DaysBefore l m"
  by (auto simp: DaysBefore_def)

lemma DaysBefore_month_of:
  assumes "l = 0 \<or> l = 1" and "0 \<le> d"
  shows "DaysBefore l (month_of l d) \<le> d"
  using assms by (auto simp: month_of_def DaysBefore_def)

lemma DayWithinYear_range:
  "0 \<le> DayWithinYear t \<and> DayWithinYear t < DaysInYear (YearFromTime t)"
  using YearFromTime_bounds [of t] by (simp add: DayWithinYear_def DayFromYear_step)

lemma DaysInYear_leap: "DaysInYear (YearFromTime t) = 365 + InLeapYear t"
  by (simp add: InLeapYear_def DaysInYear_def)

lemma Day_of_midnight: "Day (d * msPerDay) = d"
  by (simp add: Day_def msPerDay_def)

text \<open>The first day of the month of t.\<close>

lemma first_of_month:
  fixes t :: int
  defines "t0 \<equiv> (DayFromYear (YearFromTime t) + DaysBefore (InLeapYear t) (MonthFromTime t)) * msPerDay"
  shows "YearFromTime t0 = YearFromTime t \<and> MonthFromTime t0 = MonthFromTime t \<and> DateFromTime t0 = 1"
proof -
  let ?Y = "YearFromTime t" and ?l = "InLeapYear t" and ?M = "MonthFromTime t"
  have l: "?l = 0 \<or> ?l = 1" by (rule InLeapYear_cases)
  have d0: "Day t0 = DayFromYear ?Y + DaysBefore ?l ?M"
    by (simp add: t0_def Day_of_midnight)
  have lo: "0 \<le> DaysBefore ?l ?M"
    by (rule DaysBefore_nonneg [OF l])
  have hi: "DaysBefore ?l ?M \<le> DayWithinYear t"
    using DaysBefore_month_of [OF l, of "DayWithinYear t"] DayWithinYear_range [of t]
    by (simp add: MonthFromTime_month_of)
  have "DayFromYear ?Y \<le> Day t0"
    using lo d0 by simp
  moreover have "Day t0 < DayFromYear (?Y + 1)"
    using hi d0 YearFromTime_bounds [of t] by (simp add: DayWithinYear_def)
  ultimately have Y: "YearFromTime t0 = ?Y"
    by (rule YearFromTime_eq)
  then have L: "InLeapYear t0 = ?l"
    by (simp add: InLeapYear_def)
  have W: "DayWithinYear t0 = DaysBefore ?l ?M"
    by (simp add: DayWithinYear_def Y d0)
  have M: "MonthFromTime t0 = ?M"
    using month_of_start [OF l, of ?M] month_of_range [of ?l "DayWithinYear t"]
    by (simp add: MonthFromTime_month_of [of t0] L W) (simp add: MonthFromTime_month_of)
  have "DateFromTime t0 = 1"
    by (simp add: DateFromTime_def L W M)
  with Y M show ?thesis by simp
qed

text \<open>
  \<open>MakeDay\<close> is what the standard asks for: the day it gives for date 1 lies in the year
  and month it was given, carried, and is the first of that month.
\<close>

lemma DaysBefore_upper: "l = 0 \<or> l = 1 \<Longrightarrow> DaysBefore l m \<le> 334 + l"
  by (auto simp: DaysBefore_def)

lemma MakeDay_first:
  fixes y m :: int
  defines "t0 \<equiv> MakeDate (MakeDay y m 1) 0"
  shows "YearFromTime t0 = y + m div 12 \<and> MonthFromTime t0 = m mod 12 \<and> DateFromTime t0 = 1"
proof -
  define ym where "ym = y + m div 12"
  define mn where "mn = m mod 12"
  define l :: int where "l = (if DaysInYear ym = 366 then 1 else 0)"
  have l: "l = 0 \<or> l = 1"
    by (simp add: l_def)
  have mn: "0 \<le> mn" "mn \<le> 11"
    by (simp_all add: mn_def)
  have d0: "Day t0 = DayFromYear ym + DaysBefore l mn"
    by (simp add: t0_def MakeDate_def MakeDay_def Let_def Day_of_midnight ym_def mn_def l_def)
  have len: "DaysInYear ym = 365 + l"
    by (simp add: l_def DaysInYear_def)
  have "DayFromYear ym \<le> Day t0"
    using DaysBefore_nonneg [OF l, of mn] d0 by simp
  moreover have "Day t0 < DayFromYear (ym + 1)"
    using DaysBefore_upper [OF l, of mn] d0 len by (simp add: DayFromYear_step)
  ultimately have Y: "YearFromTime t0 = ym"
    by (rule YearFromTime_eq)
  then have L: "InLeapYear t0 = l"
    by (simp add: InLeapYear_def l_def)
  have W: "DayWithinYear t0 = DaysBefore l mn"
    by (simp add: DayWithinYear_def Y d0)
  have M: "MonthFromTime t0 = mn"
    using month_of_start [OF l mn] by (simp add: MonthFromTime_month_of L W)
  have "DateFromTime t0 = 1"
    by (simp add: DateFromTime_def L W M)
  with Y M show ?thesis
    by (simp add: ym_def mn_def)
qed

lemma year_up_ge: "y \<le> year_up d y"
proof (induction d y rule: year_up.induct)
  case (1 d y)
  show ?case
  proof (cases "DayFromYear (y + 1) \<le> d")
    case True
    with "1.IH" have "y + 1 \<le> year_up d (y + 1)" by simp
    moreover have "year_up d y = year_up d (y + 1)"
      using True by (subst year_up.simps) simp
    ultimately show ?thesis by simp
  next
    case False
    then have "year_up d y = y"
      by (subst year_up.simps) simp
    then show ?thesis by simp
  qed
qed

lemma Day_nonneg: "0 \<le> t \<Longrightarrow> 0 \<le> Day t"
  by (simp add: Day_def msPerDay_def)

lemma YearFromTime_ge: "0 \<le> t \<Longrightarrow> 1970 \<le> YearFromTime t"
  using year_up_ge [of 1970 "Day t"] by (simp add: YearFromTime_def Day_nonneg)

lemma length_pad [simp]: "length (pad k n) = k"
  by (induction k arbitrary: n) simp_all

lemma length_iso_date: "10 \<le> length (iso_date y m d)"
  by (simp add: iso_date_def iso_year_def)

lemma utcDay_iso: "utcDay t = take 10 (iso_date (YearFromTime t) (MonthFromTime t) (DateFromTime t))"
  using length_iso_date [of "YearFromTime t" "MonthFromTime t" "DateFromTime t"]
  by (simp add: utcDay_def toISOString_def)

lemma utcMonthStart_iso:
  assumes "0 \<le> t"
  shows "utcMonthStart t = take 10 (iso_date (YearFromTime t) (MonthFromTime t) 1)"
proof -
  have yr: "(if 0 \<le> YearFromTime t \<and> YearFromTime t \<le> 99 then 1900 + YearFromTime t
             else YearFromTime t) = YearFromTime t"
    using YearFromTime_ge [OF assms] by simp
  have m: "MonthFromTime t div 12 = 0" "MonthFromTime t mod 12 = MonthFromTime t"
    using MonthFromTime_range [of t] by simp_all
  have "Date_UTC (getUTCFullYear t) (getUTCMonth t) 1 =
      (DayFromYear (YearFromTime t) + DaysBefore (InLeapYear t) (MonthFromTime t)) * msPerDay"
    unfolding Date_UTC_def getUTCFullYear_def getUTCMonth_def Let_def yr
    by (simp add: MakeDate_def MakeDay_def Let_def m InLeapYear_def)
  then show ?thesis
    using first_of_month [of t] by (simp add: utcMonthStart_def utcDay_iso [unfolded utcDay_def])
qed

lemma calendar_Day:
  assumes "Day t = Day t'"
  shows "YearFromTime t = YearFromTime t'" "MonthFromTime t = MonthFromTime t'"
    "DateFromTime t = DateFromTime t'"
proof -
  show Y: "YearFromTime t = YearFromTime t'"
    using assms by (simp add: YearFromTime_def)
  then have "InLeapYear t = InLeapYear t'" "DayWithinYear t = DayWithinYear t'"
    using assms by (simp_all add: InLeapYear_def DayWithinYear_def)
  then show M: "MonthFromTime t = MonthFromTime t'"
    by (simp add: MonthFromTime_def)
  with \<open>InLeapYear t = InLeapYear t'\<close> \<open>DayWithinYear t = DayWithinYear t'\<close>
  show "DateFromTime t = DateFromTime t'"
    by (simp add: DateFromTime_def)
qed

lemma utcDay_Day: "Day t = Day t' \<Longrightarrow> utcDay t = utcDay t'"
  by (simp add: utcDay_iso calendar_Day [of t t'])

lemma utcMonthStart_Day: "Day t = Day t' \<Longrightarrow> utcMonthStart t = utcMonthStart t'"
  by (simp add: utcMonthStart_def getUTCFullYear_def getUTCMonth_def calendar_Day [of t t'])

lemma windows_shift:
  "windows t = (utcDay (t - msPerDay), utcDay (t - 6 * msPerDay), utcMonthStart t)"
  using setUTCDate_shift [of t 1] setUTCDate_shift [of t 6] by (simp add: windows_def)

lemma windows_Day:
  assumes "Day t = Day t'"
  shows "windows t = windows t'"
proof -
  have "Day (t - 1 * msPerDay) = Day (t' - 1 * msPerDay)"
    using assms by (simp only: Day_shift)
  then have 1: "utcDay (t - msPerDay) = utcDay (t' - msPerDay)"
    using utcDay_Day [of "t - msPerDay" "t' - msPerDay"] by simp
  have "Day (t - 6 * msPerDay) = Day (t' - 6 * msPerDay)"
    using assms by (simp only: Day_shift)
  then have 2: "utcDay (t - 6 * msPerDay) = utcDay (t' - 6 * msPerDay)"
    by (rule utcDay_Day)
  show ?thesis
    by (simp only: windows_shift 1 2 utcMonthStart_Day [OF assms])
qed

section \<open>Day keys are ordered as their days\<close>

text \<open>Zero-padded decimals compare as the numbers they print.\<close>

lemma append_less_iff:
  fixes u u' v v' :: "'a::linorder list"
  assumes "length u = length u'"
  shows "u @ v < u' @ v' \<longleftrightarrow> u < u' \<or> u = u' \<and> v < v'"
  using assms by (induction u u' rule: list_induct2) auto

lemma of_char_digit: "of_char (digit n) = (48 + n mod 10 :: nat)"
proof -
  have "k < 10 \<Longrightarrow> k = 0 \<or> k = 1 \<or> k = 2 \<or> k = 3 \<or> k = 4 \<or> k = 5 \<or> k = 6 \<or> k = 7 \<or> k = 8 \<or> k = 9"
    for k :: nat by arith
  moreover have "n mod 10 < 10" by simp
  ultimately have "n mod 10 = 0 \<or> n mod 10 = 1 \<or> n mod 10 = 2 \<or> n mod 10 = 3 \<or> n mod 10 = 4 \<or>
      n mod 10 = 5 \<or> n mod 10 = 6 \<or> n mod 10 = 7 \<or> n mod 10 = 8 \<or> n mod 10 = 9"
    by blast
  then show ?thesis
    unfolding digit_def by (elim disjE) simp_all
qed

lemma digit_less: "a mod 10 < b mod 10 \<Longrightarrow> digit a < digit b"
  by (simp add: less_char_def of_char_digit)

lemma pad_less: "n < n' \<Longrightarrow> n' < 10 ^ k \<Longrightarrow> pad k n < pad k n'"
proof (induction k arbitrary: n n')
  case 0
  then show ?case by simp
next
  case (Suc k)
  have le: "n div 10 \<le> n' div 10"
    using Suc.prems(1) by (simp add: div_le_mono)
  show ?case
  proof (cases "n div 10 = n' div 10")
    case True
    have "n = 10 * (n div 10) + n mod 10" "n' = 10 * (n' div 10) + n' mod 10"
      by simp_all
    with True Suc.prems(1) have "n mod 10 < n' mod 10"
      by (metis add_less_cancel_left)
    then show ?thesis
      by (simp add: True append_less_iff digit_less)
  next
    case False
    with le have lt: "n div 10 < n' div 10" by simp
    have "n' div 10 < 10 ^ k"
      using Suc.prems(2) by (simp add: less_mult_imp_div_less mult.commute)
    from Suc.IH [OF lt this] show ?thesis
      by (simp add: append_less_iff)
  qed
qed

text \<open>Day keys of the years 0 to 9999 are ordered as their dates.\<close>

lemma iso_date_four: "0 \<le> y \<Longrightarrow> y \<le> 9999 \<Longrightarrow>
    iso_date y m d = pad 4 (nat y) @ ''-'' @ pad 2 (nat (m + 1)) @ ''-'' @ pad 2 (nat d)"
  by (simp add: iso_date_def iso_year_def)

lemma iso_date_less:
  assumes y: "0 \<le> y" "y \<le> y'" "y' \<le> 9999"
    and m: "0 \<le> m" "m \<le> 11" "0 \<le> m'" "m' \<le> 11"
    and d: "0 \<le> d" "d \<le> 31" "0 \<le> d'" "d' \<le> 31"
    and less: "y < y' \<or> y = y' \<and> (m < m' \<or> m = m' \<and> d < d')"
  shows "iso_date y m d < iso_date y' m' d'"
proof -
  have py: "pad 4 (nat y) < pad 4 (nat y')" if "y < y'"
    using that y by (intro pad_less) simp_all
  have pm: "pad 2 (nat (m + 1)) < pad 2 (nat (m' + 1))" if "m < m'"
    using that m by (intro pad_less) simp_all
  have pd: "pad 2 (nat d) < pad 2 (nat d')" if "d < d'"
    using that d by (intro pad_less) simp_all
  have "pad 4 (nat y) @ ''-'' @ pad 2 (nat (m + 1)) @ ''-'' @ pad 2 (nat d) <
        pad 4 (nat y') @ ''-'' @ pad 2 (nat (m' + 1)) @ ''-'' @ pad 2 (nat d')"
    using less py pm pd
    by (auto simp: append_less_iff [of "pad 4 (nat y)" "pad 4 (nat y')"]
        append_less_iff [of "pad 2 (nat (m + 1))" "pad 2 (nat (m' + 1))"])
  then show ?thesis
    using y by (simp add: iso_date_four)
qed

lemma month_of_mono:
  assumes "l = 0 \<or> l = 1" and "d \<le> d'"
  shows "month_of l d \<le> month_of l d'"
  using assms unfolding month_of_def by (elim disjE) (simp_all split: if_splits)

lemma date_range:
  assumes "l = 0 \<or> l = 1" and "0 \<le> d" and "d < 365 + l"
  shows "1 \<le> d - DaysBefore l (month_of l d) + 1 \<and> d - DaysBefore l (month_of l d) + 1 \<le> 31"
  using assms unfolding month_of_def DaysBefore_def by (elim disjE) (simp_all split: if_splits)

lemma era_year:
  assumes "in_era t"
  shows "1970 \<le> YearFromTime t \<and> YearFromTime t \<le> 9999"
proof -
  from assms have d: "0 \<le> Day t" "Day t < DayFromYear 10000"
    by (simp_all add: in_era_def DayFromYear_10000)
  have "1970 \<le> YearFromTime t"
    using year_up_ge [of 1970 "Day t"] d(1) by (simp add: YearFromTime_def)
  moreover have "YearFromTime t \<le> 9999"
  proof (rule ccontr)
    assume "\<not> YearFromTime t \<le> 9999"
    then have "10000 \<le> YearFromTime t" by simp
    from DayFromYear_mono [OF this] YearFromTime_bounds [of t] d(2) show False by linarith
  qed
  ultimately show ?thesis by simp
qed

lemma DateFromTime_range: "1 \<le> DateFromTime t \<and> DateFromTime t \<le> 31"
  using date_range [OF InLeapYear_cases, of "DayWithinYear t" t] DayWithinYear_range [of t]
  by (simp add: DateFromTime_def MonthFromTime_month_of DaysInYear_leap)

lemma utcDay_era:
  "in_era t \<Longrightarrow> utcDay t = iso_date (YearFromTime t) (MonthFromTime t) (DateFromTime t)"
  using era_year [of t] by (simp add: utcDay_iso iso_date_four)

lemma calendar_less:
  assumes "Day t < Day t'"
  shows "YearFromTime t \<le> YearFromTime t' \<and>
    (YearFromTime t < YearFromTime t' \<or>
     YearFromTime t = YearFromTime t' \<and>
       (MonthFromTime t < MonthFromTime t' \<or>
        MonthFromTime t = MonthFromTime t' \<and> DateFromTime t < DateFromTime t'))"
proof -
  have Y: "YearFromTime t \<le> YearFromTime t'"
  proof (rule ccontr)
    assume "\<not> YearFromTime t \<le> YearFromTime t'"
    then have "YearFromTime t' + 1 \<le> YearFromTime t" by simp
    from DayFromYear_mono [OF this] YearFromTime_bounds [of t] YearFromTime_bounds [of t'] assms
    show False by linarith
  qed
  show ?thesis
  proof (cases "YearFromTime t = YearFromTime t'")
    case False
    with Y show ?thesis by simp
  next
    case True
    then have l: "InLeapYear t = InLeapYear t'"
      by (simp add: InLeapYear_def)
    have w: "DayWithinYear t < DayWithinYear t'"
      using assms True by (simp add: DayWithinYear_def)
    then have "month_of (InLeapYear t') (DayWithinYear t) \<le> month_of (InLeapYear t') (DayWithinYear t')"
      by (intro month_of_mono InLeapYear_cases) simp
    then have M: "MonthFromTime t \<le> MonthFromTime t'"
      by (simp add: MonthFromTime_month_of l)
    show ?thesis
    proof (cases "MonthFromTime t = MonthFromTime t'")
      case False
      with M True show ?thesis by simp
    next
      case same: True
      then have "DateFromTime t < DateFromTime t'"
        using w by (simp add: DateFromTime_def l)
      with True same show ?thesis by simp
    qed
  qed
qed

lemma utcDay_less:
  assumes "in_era t" and "in_era t'" and "Day t < Day t'"
  shows "utcDay t < utcDay t'"
proof -
  have "iso_date (YearFromTime t) (MonthFromTime t) (DateFromTime t) <
        iso_date (YearFromTime t') (MonthFromTime t') (DateFromTime t')"
    using era_year [OF assms(1)] era_year [OF assms(2)] calendar_less [OF assms(3)]
      MonthFromTime_range [of t] MonthFromTime_range [of t']
      DateFromTime_range [of t] DateFromTime_range [of t']
    by (intro iso_date_less) simp_all
  then show ?thesis
    by (simp add: utcDay_era assms(1,2))
qed

lemma utcDay_le_iff:
  assumes "in_era t" and "in_era t'"
  shows "utcDay t \<le> utcDay t' \<longleftrightarrow> Day t \<le> Day t'"
proof
  assume "utcDay t \<le> utcDay t'"
  show "Day t \<le> Day t'"
  proof (rule ccontr)
    assume "\<not> Day t \<le> Day t'"
    then have "utcDay t' < utcDay t"
      using utcDay_less [OF assms(2,1)] by simp
    with \<open>utcDay t \<le> utcDay t'\<close> show False by simp
  qed
next
  assume "Day t \<le> Day t'"
  then consider "Day t < Day t'" | "Day t = Day t'" by linarith
  then show "utcDay t \<le> utcDay t'"
  proof cases
    case 1
    from utcDay_less [OF assms 1] show ?thesis by simp
  next
    case 2
    then have "utcDay t = utcDay t'"
      by (rule utcDay_Day)
    then show ?thesis by simp
  qed
qed

lemma utcDay_less_iff:
  assumes "in_era t" and "in_era t'"
  shows "utcDay t < utcDay t' \<longleftrightarrow> Day t < Day t'"
  using utcDay_le_iff [OF assms(2,1)] by (simp add: not_le [symmetric])

section \<open>The handlers in closed form\<close>

lemma fetchManifest_eq:
  "fetchManifest x url w = (Inr (manifest_of (get_reply x url)), emit (Get url) w)"
  by (simp add: fetchManifest_def manifest_of_def try_catch_def await_def http_fetch_def
      return_def throw_def res_json_def split: reply.splits option.splits)

lemma counted_attempt:
  "try_catch (await (incrementCounter d c) (\<lambda>_. return False)) (return True) w =
     (Inr (isl (fst (incrementCounter d c w))), snd (incrementCounter d c w))"
  by (simp add: try_catch_def await_def return_def split: prod.splits sum.splits)

lemma best_effort:
  "try_catch (incrementCounter d c) (return ()) w = (Inr (), snd (incrementCounter d c w))"
  by (simp add: try_catch_def return_def split: prod.splits sum.splits)

lemma fetch_update_check:
  assumes "req_method request = ''GET''" and "pathname request = ''/update/check''"
  shows "fetch x request env w =
     (let today = utcDay (clock x);
          w1 = snd (incrementCounter today Update_checks w);
          w2 = emit (Get (MANIFEST_URL env)) w1;
          w3 = (if isl (fst (incrementCounter today Update_checks w))
                then snd (incrementCounter today Errors w2) else w2);
          manifest = manifest_of (get_reply x (MANIFEST_URL env))
      in (Inr (if \<not> truthy manifest then manifest_unavailable else Response 200 manifest), w3))"
  using assms
  by (simp add: fetch_def Let_def await_def [of "try_catch _ _"] await_def [of "fetchManifest _ _"]
      await_def [of "If _ _ _"] counted_attempt fetchManifest_eq best_effort return_def)

lemma fetch_download_latest:
  assumes "req_method request = ''GET''" and "pathname request = ''/download/latest''"
  shows "fetch x request env w =
     (let today = utcDay (clock x);
          w1 = snd (incrementCounter today Downloads w);
          w2 = emit (Get (MANIFEST_URL env)) w1;
          w3 = (if isl (fst (incrementCounter today Downloads w))
                then snd (incrementCounter today Errors w2) else w2);
          manifest = manifest_of (get_reply x (MANIFEST_URL env))
      in if \<not> truthy manifest then (Inr manifest_unavailable, w3)
         else (case latestUrl manifest of
                 Some (JStr u) \<Rightarrow>
                   if u = [] then (Inr manifest_unavailable, w3)
                   else if url_parses x u then (Inr (Redirect 302 (url_href x u)), w3)
                   else (Inl TypeError, w3)
               | _ \<Rightarrow> (Inr manifest_unavailable, w3)))"
  using assms
  by (simp add: fetch_def Let_def await_def [of "try_catch _ _"] await_def [of "fetchManifest _ _"]
      await_def [of "If _ _ _"] counted_attempt fetchManifest_eq best_effort return_def throw_def
      Response_redirect_def split: option.splits json.splits)

lemma rejected_drop: "rejected (w\<lparr>faults := drop k (faults w)\<rparr>) = (k < length (faults w) \<and> faults w ! k)"
  by (cases "k < length (faults w)")
     (auto simp: rejected_def hd_drop_conv_nth Cons_nth_drop_Suc [symmetric] split: list.splits)

lemma queryTotals_fst: "fst (queryTotals a b w) = (if rejected w then Inl StorageError else Inr (hd (sql_select a b (table w))))"
  by (simp add: queryTotals_cases)

lemma queryTotals_snd: "snd (queryTotals a b w) = w\<lparr>trace := trace w @ [Query a b], faults := tl (faults w)\<rparr>"
  by (simp add: queryTotals_cases)

lemma Promise_all_eq:
  "Promise_all p q w =
     (case fst (p w) of Inl e \<Rightarrow> Inl e
      | Inr a \<Rightarrow> (case fst (q (snd (p w))) of Inl e \<Rightarrow> Inl e | Inr b \<Rightarrow> Inr (a, b)),
      snd (q (snd (p w))))"
  by (simp add: Promise_all_def case_prod_beta)

lemma rejected_faults: "rejected w = (faults w \<noteq> [] \<and> hd (faults w))"
  by (simp add: rejected_def split: list.splits)

lemma fails_within_unfold:
  "fails_within (Suc n) w = (rejected w \<or> fails_within n (w\<lparr>faults := tl (faults w)\<rparr>))"
  by (cases "faults w") (auto simp: fails_within_def rejected_def)

lemma fails_within_0: "fails_within 0 w = False"
  by (simp add: fails_within_def)

lemma report_queries:
  "Promise_all (queryTotals a1 b1) (Promise_all (queryTotals a2 b2)
     (Promise_all (queryTotals a3 b3) (queryTotals a4 b4))) w =
   (if fails_within 4 w then Inl StorageError
    else Inr (hd (sql_select a1 b1 (table w)), hd (sql_select a2 b2 (table w)),
              hd (sql_select a3 b3 (table w)), hd (sql_select a4 b4 (table w))),
    after_queries [Query a1 b1, Query a2 b2, Query a3 b3, Query a4 b4] w)"
proof -
  have n: "4 = Suc (Suc (Suc (Suc 0)))" by simp
  show ?thesis
    unfolding n fails_within_unfold fails_within_0
    by (simp add: Promise_all_eq queryTotals_fst queryTotals_snd after_queries_def drop_Suc
        rejected_faults)
qed

lemma job_queries:
  "Promise_all (queryTotals a2 b2) (Promise_all (queryTotals a3 b3) (queryTotals a4 b4)) w =
   (if fails_within 3 w then Inl StorageError
    else Inr (hd (sql_select a2 b2 (table w)),
              hd (sql_select a3 b3 (table w)), hd (sql_select a4 b4 (table w))),
    after_queries [Query a2 b2, Query a3 b3, Query a4 b4] w)"
proof -
  have n: "3 = Suc (Suc (Suc 0))" by simp
  show ?thesis
    unfolding n fails_within_unfold fails_within_0
    by (simp add: Promise_all_eq queryTotals_fst queryTotals_snd after_queries_def drop_Suc
        rejected_faults)
qed

lemma fetch_report:
  assumes "req_method request = ''GET''" and "pathname request = ''/report''"
  shows "fetch x request env w =
     (if ADMIN_TOKEN env = [] \<or> admin_token request \<noteq> Some (ADMIN_TOKEN env)
      then (Inr unauthorized, w)
      else
        (let today = utcDay (clock x) in
         case windows (clock x) of (yesterday, sevenDaysAgo, monthStart) \<Rightarrow>
           (if fails_within 4 w then Inl StorageError
            else Inr (Response 200
                   (JObj [(''today'', totals_json (hd (sql_select today today (table w)))),
                          (''yesterday'', totals_json (hd (sql_select yesterday yesterday (table w)))),
                          (''last_7_days'', totals_json (hd (sql_select sevenDaysAgo today (table w)))),
                          (''month_to_date'', totals_json (hd (sql_select monthStart today (table w))))])),
            after_queries [Query today today, Query yesterday yesterday,
                           Query sevenDaysAgo today, Query monthStart today] w)))"
  using assms
  by (simp add: fetch_def Let_def await_def report_queries return_def split: prod.splits)

lemma send_eq:
  "try_catch (await (http_fetch e r) (\<lambda>(st, b). if \<not> ok st then throw (WebhookStatus st) else return ())) h w =
     (if delivered r then (Inr (), emit e w) else h (emit e w))"
  by (simp add: try_catch_def await_def http_fetch_def throw_def return_def delivered_def
      split: reply.splits)

lemma aggregate_eq:
  "try_catch (await P (\<lambda>r. return (Some r)))
     (await (try_catch (incrementCounter d c) (return ())) (\<lambda>_. return None)) w =
   (case fst (P w) of
      Inl e \<Rightarrow> (Inr None, snd (incrementCounter d c (snd (P w))))
    | Inr r \<Rightarrow> (Inr (Some r), snd (P w)))"
  by (simp add: try_catch_def [of "await _ _"] await_def best_effort return_def
      split: prod.splits sum.splits)

lemma scheduled_eq:
  "scheduled x env w =
     (let today = utcDay (clock x) in
      case windows (clock x) of (yesterday, sevenDaysAgo, monthStart) \<Rightarrow>
        (let w1 = after_queries [Query yesterday yesterday, Query sevenDaysAgo today,
                                 Query monthStart today] w
         in if fails_within 3 w then (Inr (), snd (incrementCounter today Errors w1))
            else
              (let body = JObj [(''content'', JStr (message today yesterday sevenDaysAgo monthStart
                                   (hd (sql_select yesterday yesterday (table w)))
                                   (hd (sql_select sevenDaysAgo today (table w)))
                                   (hd (sql_select monthStart today (table w)))))];
                   w2 = emit (Post (DISCORD_WEBHOOK_URL env) body) w1
               in if delivered (post_reply x (DISCORD_WEBHOOK_URL env) body) then (Inr (), w2)
                  else (Inr (), snd (incrementCounter today Errors w2)))))"
  by (simp add: scheduled_def Let_def send_eq aggregate_eq job_queries best_effort
      await_def [of "try_catch _ _"] return_def split: prod.splits)

section \<open>No operation lowers a counter\<close>

lemma incrementCounter_grows: "no_decrease (table w) (table (snd (incrementCounter d c w)))"
proof -
  have "no_decrease (table w) (sql_update c d (sql_insert d (table w)))"
    using no_decrease_insert no_decrease_update by (rule no_decrease_trans)
  then show ?thesis
    by (simp add: incrementCounter_cases no_decrease_refl no_decrease_insert)
qed

lemma queryTotals_table: "table (snd (queryTotals a b w)) = table w"
  by (simp add: queryTotals_cases)

lemma table_after_queries [simp]: "table (after_queries es w) = table w"
  by (simp add: after_queries_def)

lemma counting_grows:
  "no_decrease (table w)
     (table (if isl (fst (incrementCounter d c w))
             then snd (incrementCounter d Errors (emit e (snd (incrementCounter d c w))))
             else emit e (snd (incrementCounter d c w))))"
proof -
  let ?w1 = "snd (incrementCounter d c w)"
  have 1: "no_decrease (table w) (table (emit e ?w1))"
    using incrementCounter_grows [of w d c] by simp
  have 2: "no_decrease (table (emit e ?w1)) (table (snd (incrementCounter d Errors (emit e ?w1))))"
    by (rule incrementCounter_grows)
  from 1 2 have "no_decrease (table w) (table (snd (incrementCounter d Errors (emit e ?w1))))"
    by (rule no_decrease_trans)
  with 1 show ?thesis by simp
qed

lemma fetch_other:
  assumes "\<not> (req_method request = ''GET'' \<and> pathname request = ''/update/check'')"
    and "\<not> (req_method request = ''GET'' \<and> pathname request = ''/download/latest'')"
    and "\<not> (req_method request = ''GET'' \<and> pathname request = ''/report'')"
  shows "fetch x request env w = (Inr not_found, w)"
proof (cases "req_method request = ''GET''")
  case True
  with assms have "pathname request \<noteq> ''/update/check''"
    "pathname request \<noteq> ''/download/latest''" "pathname request \<noteq> ''/report''"
    by simp_all
  then show ?thesis by (simp add: fetch_def Let_def return_def)
next
  case False
  then show ?thesis by (simp add: fetch_def Let_def return_def)
qed

lemma fetch_grows: "no_decrease (table w) (table (snd (fetch x request env w)))"
proof -
  consider
    (check) "req_method request = ''GET''" "pathname request = ''/update/check''"
  | (download) "req_method request = ''GET''" "pathname request = ''/download/latest''"
  | (report) "req_method request = ''GET''" "pathname request = ''/report''"
  | (other) "\<not> (req_method request = ''GET'' \<and> pathname request = ''/update/check'')"
      "\<not> (req_method request = ''GET'' \<and> pathname request = ''/download/latest'')"
      "\<not> (req_method request = ''GET'' \<and> pathname request = ''/report'')"
    by blast
  then show ?thesis
  proof cases
    case check
    show ?thesis
      unfolding fetch_update_check [OF check] Let_def snd_conv by (rule counting_grows)
  next
    case download
    have "snd (fetch x request env w) =
        (if isl (fst (incrementCounter (utcDay (clock x)) Downloads w))
         then snd (incrementCounter (utcDay (clock x)) Errors
                (emit (Get (MANIFEST_URL env)) (snd (incrementCounter (utcDay (clock x)) Downloads w))))
         else emit (Get (MANIFEST_URL env)) (snd (incrementCounter (utcDay (clock x)) Downloads w)))"
      unfolding fetch_download_latest [OF download] Let_def
      by (simp split: option.splits json.splits)
    then show ?thesis by (simp only: counting_grows)
  next
    case report
    show ?thesis
      unfolding fetch_report [OF report]
      by (simp add: Let_def no_decrease_refl split: prod.splits)
  next
    case other
    show ?thesis by (simp add: fetch_other [OF other] no_decrease_refl)
  qed
qed

lemma scheduled_grows: "no_decrease (table w) (table (snd (scheduled x env w)))"
proof -
  have "no_decrease (table w) (table (snd (incrementCounter d c (emit e (after_queries es w)))))" for d c e es
    using incrementCounter_grows [of "emit e (after_queries es w)" d c] by simp
  moreover have "no_decrease (table w) (table (snd (incrementCounter d c (after_queries es w))))" for d c es
    using incrementCounter_grows [of "after_queries es w" d c] by simp
  ultimately show ?thesis
    by (simp add: scheduled_eq Let_def no_decrease_refl split: prod.splits)
qed

section \<open>Counters, traces and day keys after the handlers\<close>

lemma incrementCounter_trace:
  "trace (snd (incrementCounter d c w)) = trace w @ [Increment d c]"
  by (simp add: incrementCounter_cases)

lemma counter_insert: "counter (sql_insert d t) d' c = counter t d' c"
  by (auto simp: counter_def row_of_insert col_zero not_in_days split: option.splits)

lemma counter_update:
  "counter (sql_update c d t) d' c' =
     counter t d' c' + (if d' = d \<and> c' = c \<and> row_of d t \<noteq> None then 1 else 0)"
  by (auto simp: counter_def row_of_update col_bump split: option.splits)

lemma row_of_insert_same: "row_of d (sql_insert d t) \<noteq> None"
  using row_of_None_image [of d t] by (auto simp: row_of_insert)

lemma counter_incrementCounter:
  "counter (table (snd (incrementCounter d c w))) d' c' =
     counter (table w) d' c' +
       (if d' = d \<and> c' = c \<and> fst (incrementCounter d c w) = Inr () then 1 else 0)"
  by (simp add: incrementCounter_cases counter_insert counter_update row_of_insert_same)

lemma manifest_of_failed: "fetch_failed r \<Longrightarrow> manifest_of r = JNull"
  by (auto simp: fetch_failed_def manifest_of_def split: reply.splits)

lemma after_queries_trace [simp]: "trace (after_queries es w) = trace w @ es"
  by (simp add: after_queries_def)

lemma latestUrl_object: "latestUrl m = Some v \<Longrightarrow> truthy m"
  by (cases m) (simp_all add: latestUrl_def download_url_def latest_url_def nullish_or_def)

lemma scheduled_returns: "fst (scheduled x env w) = Inr ()"
  by (simp add: scheduled_eq Let_def split: prod.splits)

lemma queryTotals_Inr:
  "queryTotals a b w = (Inr s, w') \<Longrightarrow> s = hd (sql_select a b (table w)) \<and> table w' = table w"
  by (auto simp: queryTotals_cases split: if_splits)

text \<open>The only row a handler can create is the row of today.\<close>

lemma incrementCounter_days:
  "set (map day (table (snd (incrementCounter d c w)))) \<subseteq> insert d (set (map day (table w)))"
  by (auto simp: incrementCounter_cases map_day_update sql_insert_def
      simp del: set_map split: if_splits)

lemma counting_days:
  "set (map day (table (if isl (fst (incrementCounter d c w))
             then snd (incrementCounter d Errors (emit e (snd (incrementCounter d c w))))
             else emit e (snd (incrementCounter d c w))))) \<subseteq> insert d (set (map day (table w)))"
  using incrementCounter_days [of d c w]
    incrementCounter_days [of d Errors "emit e (snd (incrementCounter d c w))"]
  by (auto simp del: set_map)

lemma fetch_days:
  "set (map day (table (snd (fetch x request env w)))) \<subseteq>
     insert (utcDay (clock x)) (set (map day (table w)))"
proof -
  consider
    (check) "req_method request = ''GET''" "pathname request = ''/update/check''"
  | (download) "req_method request = ''GET''" "pathname request = ''/download/latest''"
  | (report) "req_method request = ''GET''" "pathname request = ''/report''"
  | (other) "\<not> (req_method request = ''GET'' \<and> pathname request = ''/update/check'')"
      "\<not> (req_method request = ''GET'' \<and> pathname request = ''/download/latest'')"
      "\<not> (req_method request = ''GET'' \<and> pathname request = ''/report'')"
    by blast
  then show ?thesis
  proof cases
    case check
    show ?thesis
      unfolding fetch_update_check [OF check] Let_def snd_conv by (rule counting_days)
  next
    case download
    have "snd (fetch x request env w) =
        (if isl (fst (incrementCounter (utcDay (clock x)) Downloads w))
         then snd (incrementCounter (utcDay (clock x)) Errors
                (emit (Get (MANIFEST_URL env)) (snd (incrementCounter (utcDay (clock x)) Downloads w))))
         else emit (Get (MANIFEST_URL env)) (snd (incrementCounter (utcDay (clock x)) Downloads w)))"
      unfolding fetch_download_latest [OF download] Let_def
      by (simp split: option.splits json.splits)
    then show ?thesis by (simp only: counting_days)
  next
    case report
    show ?thesis
      unfolding fetch_report [OF report]
      by (auto simp: Let_def split: prod.splits)
  next
    case other
    show ?thesis by (auto simp: fetch_other [OF other])
  qed
qed

lemma scheduled_days:
  "set (map day (table (snd (scheduled x env w)))) \<subseteq>
     insert (utcDay (clock x)) (set (map day (table w)))"
proof -
  have "set (map day (table (snd (incrementCounter d c (emit e (after_queries es w)))))) \<subseteq>
      insert d (set (map day (table w)))" for d c e es
    using incrementCounter_days [of d c "emit e (after_queries es w)"] by simp
  moreover have "set (map day (table (snd (incrementCounter d c (after_queries es w))))) \<subseteq>
      insert d (set (map day (table w)))" for d c es
    using incrementCounter_days [of d c "after_queries es w"] by simp
  ultimately show ?thesis
    by (simp add: scheduled_eq Let_def subset_insertI split: prod.splits del: set_map)
qed

lemma sum_filter_split:
  assumes "\<forall>r\<in>set t. (P3 r \<longleftrightarrow> P1 r \<or> P2 r) \<and> \<not> (P1 r \<and> P2 r)"
  shows "sum_list (map f (filter P3 t)) =
         sum_list (map f (filter P1 t)) + (sum_list (map f (filter P2 t)) :: nat)"
  using assms by (induction t) auto

lemma in_era_next:
  assumes "in_era tm" and "in_era tb" and "Day tm < Day tb"
  shows "in_era (tm + msPerDay)" and "Day (tm + msPerDay) = Day tm + 1"
proof -
  show d: "Day (tm + msPerDay) = Day tm + 1"
    using Day_shift [of tm "- 1"] by simp
  with assms show "in_era (tm + msPerDay)"
    by (simp add: in_era_def)
qed

text \<open>The redirect target, read along the two paths.\<close>

lemma get_member_path:
  "get_member v k = (case v of None \<Rightarrow> None | Some j \<Rightarrow> at_path [k] j)"
  by (cases "(v, k)" rule: get_member.cases) (auto split: option.splits)

lemma at_path_Cons:
  "at_path (k # k' # ks) j = (case at_path [k] j of None \<Rightarrow> None | Some v \<Rightarrow> at_path (k' # ks) v)"
  by (cases j) (auto split: option.splits)

lemma download_url_path: "download_url m = at_path [''latest'', ''download'', ''url''] m"
  by (simp add: download_url_def get_member_path at_path_Cons split: option.splits)

lemma latest_url_path: "latest_url m = at_path [''latest'', ''url''] m"
  by (simp add: latest_url_def get_member_path at_path_Cons split: option.splits)

lemma latestUrl_target: "latestUrl m = redirect_target m"
  by (simp add: latestUrl_def redirect_target_def nullish_or_def absent_def download_url_path
      latest_url_path)

lemma download_latest_outcome:
  assumes "req_method request = ''GET''" and "pathname request = ''/download/latest''"
    and "get_reply x (MANIFEST_URL env) = Reply st (Some manifest)" and "ok st"
  shows "fst (fetch x request env w) =
     (case redirect_target manifest of
        Some (JStr v) \<Rightarrow>
          if v = [] then Inr manifest_unavailable
          else if url_parses x v then Inr (Redirect 302 (url_href x v))
          else Inl TypeError
      | _ \<Rightarrow> Inr manifest_unavailable)"
proof -
  have m: "manifest_of (get_reply x (MANIFEST_URL env)) = manifest"
    using assms(3,4) by (simp add: manifest_of_def)
  show ?thesis
  proof (cases "truthy manifest")
    case True
    then show ?thesis
      by (simp add: fetch_download_latest [OF assms(1,2)] Let_def m latestUrl_target
          split: option.splits json.splits)
  next
    case False
    then have "latestUrl manifest = None"
      using latestUrl_object [of manifest] by (cases "latestUrl manifest") auto
    with False show ?thesis
      by (simp add: fetch_download_latest [OF assms(1,2)] Let_def m latestUrl_target [symmetric])
  qed
qed

section \<open>The examples, evaluated\<close>

lemma Day_2025_03_01: "Day 1740787200000 = 20148"
  by (simp add: Day_def msPerDay_def)

lemma Day_2025_03_15: "Day 1741996800000 = 20162"
  by (simp add: Day_def msPerDay_def)

lemma utcDay_2025_03_01: "utcDay 1740787200000 = ''2025-03-01''"
  by code_simp

lemma utcDay_2025_03_14: "utcDay 1741910400000 = ''2025-03-14''"
  by code_simp

lemma utcDay_2025_03_15: "utcDay 1741996800000 = ''2025-03-15''"
  by code_simp

lemma windows_2025_03_01: "windows 1740787200000 = (''2025-02-28'', ''2025-02-23'', ''2025-03-01'')"
  by code_simp

lemma windows_2025_03_15: "windows 1741996800000 = (''2025-03-14'', ''2025-03-09'', ''2025-03-01'')"
  by code_simp

lemma w_ex_sums:
  "hd (sql_select ''2025-03-14'' ''2025-03-14'' (table w_ex)) = \<lparr>update_checks = 7, downloads = 3, errors = 1\<rparr>"
  "hd (sql_select ''2025-03-09'' ''2025-03-15'' (table w_ex)) = \<lparr>update_checks = 9, downloads = 3, errors = 1\<rparr>"
  "hd (sql_select ''2025-03-01'' ''2025-03-15'' (table w_ex)) = \<lparr>update_checks = 9, downloads = 3, errors = 1\<rparr>"
  by (simp_all add: sql_select_eq w_ex_def in_range_def)

section \<open>The claims\<close>

text \<open>
  C1. Starting from a table with no row for day \<open>d\<close>, after \<open>n\<close> calls of
  \<open>incrementCounter d c\<close> that all succeeded, \<open>queryTotals d d\<close> returns \<open>n\<close> for counter
  \<open>c\<close> (and 0 for the two others) whenever D1 runs the query. And no operation of the
  system, whether it returns or throws, loses a row or lowers a counter of a row:
  \<open>incrementCounter\<close>, \<open>queryTotals\<close>, the HTTP handler \<open>fetch\<close> and the job \<open>scheduled\<close>.
\<close>

theorem counters_accumulate:
  "(d \<notin> set (map day (table w)) \<and> increments n d c w = (Inr (), w') \<and> \<not> rejected w' \<longrightarrow>
      (\<exists>t. fst (queryTotals d d w') = Inr t \<and> col c t = n \<and> (\<forall>c'. c' \<noteq> c \<longrightarrow> col c' t = 0))) \<and>
   no_decrease (table w) (table (snd (incrementCounter d c w))) \<and>
   no_decrease (table w) (table (snd (queryTotals a b w))) \<and>
   no_decrease (table w) (table (snd (fetch x request env w))) \<and>
   no_decrease (table w) (table (snd (scheduled x env w)))"
  using increments_sum [of d w n c w']
  by (simp add: incrementCounter_grows queryTotals_table no_decrease_refl fetch_grows
      scheduled_grows)

theorem counters_accumulate_witness:
  "''2025-03-16'' \<notin> set (map day (table w_ex)) \<and>
   increments 3 ''2025-03-16'' Errors w_ex = (Inr (), w_ex3) \<and>
   \<not> rejected w_ex3 \<and>
   (\<exists>t. fst (queryTotals ''2025-03-16'' ''2025-03-16'' w_ex3) = Inr t \<and> col Errors t = 3)"
proof -
  have run: "increments 3 ''2025-03-16'' Errors w_ex = (Inr (), w_ex3)"
    by (simp add: numeral_3_eq_3 w_ex_def w_ex3_def incrementCounter_cases rejected_def
        sql_insert_def sql_update_def)
  have fresh: "''2025-03-16'' \<notin> set (map day (table w_ex))"
    by (simp add: w_ex_def)
  have ready: "\<not> rejected w_ex3"
    by (simp add: w_ex3_def rejected_def)
  from run fresh ready
    counters_accumulate [where d = "''2025-03-16''" and w = w_ex and n = 3 and c = Errors
      and w' = w_ex3, THEN conjunct1]
  show ?thesis by blast
qed

text \<open>
  C2, as amended. On \<open>GET /update/check\<close> with a manifest fetch that fails, the handler
  answers 503 with the body \<open>{"ok":false,"error":"manifest_unavailable"}\<close>. It has
  called \<open>incrementCounter\<close> for \<open>update_checks\<close> of the current UTC day exactly once, before
  the manifest request, and for \<open>errors\<close> once after it if and only if that first call
  threw. The \<open>update_checks\<close> counter of the day is one more than before if the call
  succeeded and what it was if D1 rejected a statement of it.
\<close>

theorem update_check_manifest_unavailable:
  assumes "req_method request = ''GET''" and "pathname request = ''/update/check''"
    and "fetch_failed (get_reply x (MANIFEST_URL env))"
  shows "fst (fetch x request env w) =
           Inr (Response 503 (JObj [(''ok'', JBool False), (''error'', JStr ''manifest_unavailable'')])) \<and>
         trace (snd (fetch x request env w)) =
           trace w @ [Increment (utcDay (clock x)) Update_checks, Get (MANIFEST_URL env)] @
             (if isl (fst (incrementCounter (utcDay (clock x)) Update_checks w))
              then [Increment (utcDay (clock x)) Errors] else []) \<and>
         counter (table (snd (fetch x request env w))) (utcDay (clock x)) Update_checks =
           counter (table w) (utcDay (clock x)) Update_checks +
             (if fst (incrementCounter (utcDay (clock x)) Update_checks w) = Inr () then 1 else 0)"
  by (simp add: fetch_update_check [OF assms(1,2)] Let_def manifest_of_failed [OF assms(3)]
      manifest_unavailable_def incrementCounter_trace counter_incrementCounter)

theorem update_check_manifest_unavailable_witness:
  "fetch_failed (get_reply x_down (MANIFEST_URL env_ex)) \<and>
   fst (fetch x_down \<lparr>req_method = ''GET'', pathname = ''/update/check'', admin_token = None\<rparr> env_ex w_ex) =
     Inr (Response 503 (JObj [(''ok'', JBool False), (''error'', JStr ''manifest_unavailable'')])) \<and>
   trace (snd (fetch x_down \<lparr>req_method = ''GET'', pathname = ''/update/check'', admin_token = None\<rparr> env_ex w_ex)) =
     [Increment ''2025-03-15'' Update_checks, Get ''https://example.com/manifest.json''] \<and>
   counter (table w_ex) ''2025-03-15'' Update_checks = 2 \<and>
   counter (table (snd (fetch x_down \<lparr>req_method = ''GET'', pathname = ''/update/check'', admin_token = None\<rparr> env_ex w_ex)))
     ''2025-03-15'' Update_checks = 3"
proof -
  have failed: "fetch_failed (get_reply x_down (MANIFEST_URL env_ex))"
    by (simp add: x_down_def fetch_failed_def)
  have today: "utcDay (clock x_down) = ''2025-03-15''"
    by (simp add: x_down_def utcDay_2025_03_15)
  have inc: "fst (incrementCounter ''2025-03-15'' Update_checks w_ex) = Inr ()"
    by (simp add: incrementCounter_cases w_ex_def rejected_def)
  have before: "counter (table w_ex) ''2025-03-15'' Update_checks = 2"
    by (simp add: counter_def row_of_def w_ex_def)
  have empty: "trace w_ex = []"
    by (simp add: w_ex_def)
  show ?thesis
    using update_check_manifest_unavailable [where x = x_down and env = env_ex and w = w_ex
        and request = "\<lparr>req_method = ''GET'', pathname = ''/update/check'', admin_token = None\<rparr>",
        OF _ _ failed]
    by (simp add: today inc before empty failed) (simp add: env_ex_def)
qed

text \<open>
  C2 as it is stated fails when D1 rejects the insert: the manifest fetch fails, the
  answer is the same 503, and the \<open>update_checks\<close> counter of the day is 2 before and
  after.
\<close>

theorem update_check_counterexample:
  "fetch_failed (get_reply x_down (MANIFEST_URL env_ex)) \<and>
   fst (fetch x_down \<lparr>req_method = ''GET'', pathname = ''/update/check'', admin_token = None\<rparr> env_ex
          (w_ex\<lparr>faults := [True]\<rparr>)) =
     Inr (Response 503 (JObj [(''ok'', JBool False), (''error'', JStr ''manifest_unavailable'')])) \<and>
   counter (table (w_ex\<lparr>faults := [True]\<rparr>)) ''2025-03-15'' Update_checks = 2 \<and>
   counter (table (snd (fetch x_down \<lparr>req_method = ''GET'', pathname = ''/update/check'', admin_token = None\<rparr> env_ex
          (w_ex\<lparr>faults := [True]\<rparr>)))) ''2025-03-15'' Update_checks = 2"
proof -
  have today: "utcDay (clock x_down) = ''2025-03-15''"
    by (simp add: x_down_def utcDay_2025_03_15)
  have failed: "fetch_failed (get_reply x_down (MANIFEST_URL env_ex))"
    by (simp add: x_down_def fetch_failed_def)
  have before: "counter (table w_ex) ''2025-03-15'' Update_checks = 2"
    by (simp add: counter_def row_of_def w_ex_def)
  have inc: "fst (incrementCounter ''2025-03-15'' Update_checks (w_ex\<lparr>faults := [True]\<rparr>)) = Inl StorageError"
    by (simp add: incrementCounter_cases rejected_def)
  show ?thesis
    by (simp add: fetch_update_check Let_def today failed manifest_of_failed [OF failed]
        manifest_unavailable_def counter_incrementCounter inc before)
qed

text \<open>
  C3, as amended. On \<open>GET /download/latest\<close> with a manifest that was fetched (a
  success status and a JSON body): a non-empty string at \<open>latest.download.url\<close> that the
  platform parses as a URL gives a 302 redirect to that URL, as the platform writes it;
  when that path holds nothing or \<open>null\<close>, such a string at \<open>latest.url\<close> gives a 302
  redirect to that one; when neither path holds a non-empty string the answer is 503
  \<open>manifest_unavailable\<close>; and when the string chosen, at \<open>latest.download.url\<close> or else at
  \<open>latest.url\<close>, is non-empty but no URL, \<open>Response.redirect\<close> throws a \<open>TypeError\<close> and
  there is no response. In all cases the outcome is a function of that chosen value:
  503 when it is not a non-empty string.
\<close>

theorem download_latest_redirect:
  assumes "req_method request = ''GET''" and "pathname request = ''/download/latest''"
    and "get_reply x (MANIFEST_URL env) = Reply st (Some manifest)" and "ok st"
  shows "(at_path [''latest'', ''download'', ''url''] manifest = Some (JStr u) \<and> u \<noteq> [] \<and>
          url_parses x u \<longrightarrow>
            fst (fetch x request env w) = Inr (Redirect 302 (url_href x u))) \<and>
         (absent (at_path [''latest'', ''download'', ''url''] manifest) \<and>
          at_path [''latest'', ''url''] manifest = Some (JStr u) \<and> u \<noteq> [] \<and> url_parses x u \<longrightarrow>
            fst (fetch x request env w) = Inr (Redirect 302 (url_href x u))) \<and>
         ((\<forall>v. at_path [''latest'', ''download'', ''url''] manifest = Some (JStr v) \<longrightarrow> v = []) \<and>
          (\<forall>v. at_path [''latest'', ''url''] manifest = Some (JStr v) \<longrightarrow> v = []) \<longrightarrow>
            fst (fetch x request env w) =
              Inr (Response 503 (JObj [(''ok'', JBool False), (''error'', JStr ''manifest_unavailable'')]))) \<and>
         (redirect_target manifest = Some (JStr u) \<and> u \<noteq> [] \<and> \<not> url_parses x u \<longrightarrow>
            fst (fetch x request env w) = Inl TypeError) \<and>
         fst (fetch x request env w) =
           (case redirect_target manifest of
              Some (JStr v) \<Rightarrow>
                if v = []
                then Inr (Response 503 (JObj [(''ok'', JBool False), (''error'', JStr ''manifest_unavailable'')]))
                else if url_parses x v then Inr (Redirect 302 (url_href x v))
                else Inl TypeError
            | _ \<Rightarrow> Inr (Response 503 (JObj [(''ok'', JBool False), (''error'', JStr ''manifest_unavailable'')])))"
proof -
  note out = download_latest_outcome [OF assms, of w, unfolded manifest_unavailable_def]
  have 1: "fst (fetch x request env w) = Inr (Redirect 302 (url_href x u))"
    if "at_path [''latest'', ''download'', ''url''] manifest = Some (JStr u)" "u \<noteq> []" "url_parses x u"
  proof -
    from that(1) have "redirect_target manifest = Some (JStr u)"
      by (simp add: redirect_target_def absent_def)
    with that(2,3) show ?thesis by (simp add: out)
  qed
  have 2: "fst (fetch x request env w) = Inr (Redirect 302 (url_href x u))"
    if "absent (at_path [''latest'', ''download'', ''url''] manifest)"
      "at_path [''latest'', ''url''] manifest = Some (JStr u)" "u \<noteq> []" "url_parses x u"
  proof -
    from that(1,2) have "redirect_target manifest = Some (JStr u)"
      by (simp add: redirect_target_def)
    with that(3,4) show ?thesis by (simp add: out)
  qed
  have 3: "fst (fetch x request env w) =
      Inr (Response 503 (JObj [(''ok'', JBool False), (''error'', JStr ''manifest_unavailable'')]))"
    if "\<forall>v. at_path [''latest'', ''download'', ''url''] manifest = Some (JStr v) \<longrightarrow> v = []"
      "\<forall>v. at_path [''latest'', ''url''] manifest = Some (JStr v) \<longrightarrow> v = []"
  proof -
    from that have "\<forall>v. redirect_target manifest = Some (JStr v) \<longrightarrow> v = []"
      by (simp add: redirect_target_def)
    then show ?thesis
      by (auto simp: out split: option.splits json.splits)
  qed
  have 4: "fst (fetch x request env w) = Inl TypeError"
    if "redirect_target manifest = Some (JStr u)" "u \<noteq> []" "\<not> url_parses x u"
    using that by (simp add: out)
  from 1 2 3 4 out show ?thesis
    by blast
qed


theorem download_latest_redirect_witness:
  "ok 200 \<and>
   at_path [''latest'', ''download'', ''url'']
     (JObj [(''latest'', JObj [(''download'', JObj [(''url'', JStr ''https://x/y.zip'')])])]) =
     Some (JStr ''https://x/y.zip'') \<and>
   fst (fetch (x_serving (JObj [(''latest'', JObj [(''download'', JObj [(''url'', JStr ''https://x/y.zip'')])])]))
          \<lparr>req_method = ''GET'', pathname = ''/download/latest'', admin_token = None\<rparr> env_ex w_ex) =
     Inr (Redirect 302 ''https://x/y.zip'') \<and>
   absent (at_path [''latest'', ''download'', ''url''] (JObj [(''latest'', JObj [(''url'', JStr ''https://x/z.zip'')])])) \<and>
   at_path [''latest'', ''url''] (JObj [(''latest'', JObj [(''url'', JStr ''https://x/z.zip'')])]) =
     Some (JStr ''https://x/z.zip'') \<and>
   fst (fetch (x_serving (JObj [(''latest'', JObj [(''url'', JStr ''https://x/z.zip'')])]))
          \<lparr>req_method = ''GET'', pathname = ''/download/latest'', admin_token = None\<rparr> env_ex w_ex) =
     Inr (Redirect 302 ''https://x/z.zip'') \<and>
   at_path [''latest'', ''download'', ''url''] (JObj [(''latest'', JObj [])]) = None \<and>
   at_path [''latest'', ''url''] (JObj [(''latest'', JObj [])]) = None \<and>
   fst (fetch (x_serving (JObj [(''latest'', JObj [])]))
          \<lparr>req_method = ''GET'', pathname = ''/download/latest'', admin_token = None\<rparr> env_ex w_ex) =
     Inr (Response 503 (JObj [(''ok'', JBool False), (''error'', JStr ''manifest_unavailable'')])) \<and>
   redirect_target (JObj [(''latest'', JObj [(''url'', JStr ''ftp site'')])]) = Some (JStr ''ftp site'') \<and>
   \<not> url_parses (x_strict (JObj [(''latest'', JObj [(''url'', JStr ''ftp site'')])])) ''ftp site'' \<and>
   fst (fetch (x_strict (JObj [(''latest'', JObj [(''url'', JStr ''ftp site'')])]))
          \<lparr>req_method = ''GET'', pathname = ''/download/latest'', admin_token = None\<rparr> env_ex w_ex) =
     Inl TypeError"
proof -
  have served: "get_reply (x_serving m) (MANIFEST_URL env_ex) = Reply 200 (Some m)"
    "get_reply (x_strict m) (MANIFEST_URL env_ex) = Reply 200 (Some m)" for m
    by (simp_all add: x_serving_def x_strict_def)
  have parses: "url_parses (x_serving m) u" "url_href (x_serving m) u = u" for m u
    by (simp_all add: x_serving_def x_down_def)
  have strict: "\<not> url_parses (x_strict m) ''ftp site''" for m
    by (simp add: x_strict_def)
  have good: "ok 200"
    by (simp add: ok_def)
  let ?req = "\<lparr>req_method = ''GET'', pathname = ''/download/latest'', admin_token = None\<rparr>"
  let ?m1 = "JObj [(''latest'', JObj [(''download'', JObj [(''url'', JStr ''https://x/y.zip'')])])]"
  let ?m2 = "JObj [(''latest'', JObj [(''url'', JStr ''https://x/z.zip'')])]"
  let ?m3 = "JObj [(''latest'', JObj [])]"
  let ?m4 = "JObj [(''latest'', JObj [(''url'', JStr ''ftp site'')])]"
  have route: "req_method ?req = ''GET''" "pathname ?req = ''/download/latest''"
    by simp_all
  have a: "fst (fetch (x_serving ?m1) ?req env_ex w_ex) = Inr (Redirect 302 ''https://x/y.zip'')"
    using download_latest_redirect [OF route served(1) [of ?m1] good, where u = "''https://x/y.zip''" and w = w_ex]
    by (simp add: parses)
  have b: "fst (fetch (x_serving ?m2) ?req env_ex w_ex) = Inr (Redirect 302 ''https://x/z.zip'')"
    using download_latest_redirect [OF route served(1) [of ?m2] good, where u = "''https://x/z.zip''" and w = w_ex]
    by (simp add: parses absent_def)
  have c: "fst (fetch (x_serving ?m3) ?req env_ex w_ex) =
      Inr (Response 503 (JObj [(''ok'', JBool False), (''error'', JStr ''manifest_unavailable'')]))"
    using download_latest_redirect [OF route served(1) [of ?m3] good, where w = w_ex]
    by simp
  have d: "fst (fetch (x_strict ?m4) ?req env_ex w_ex) = Inl TypeError"
    using download_latest_redirect [OF route served(2) [of ?m4] good, where u = "''ftp site''" and w = w_ex]
    by (simp add: strict redirect_target_def absent_def)
  from a b c d good strict show ?thesis
    by (simp add: absent_def redirect_target_def)
qed

text \<open>
  C3 as it is stated fails on the manifest \<open>{"latest":{"url":"not a url"}}\<close>: nothing is
  at \<open>latest.download.url\<close>, the string at \<open>latest.url\<close> is not empty and is no URL, and
  the handler neither redirects nor answers 503: the \<open>TypeError\<close> leaves it.
\<close>

theorem download_latest_counterexample:
  "ok 200 \<and>
   at_path [''latest'', ''download'', ''url''] (JObj [(''latest'', JObj [(''url'', JStr ''not a url'')])]) = None \<and>
   at_path [''latest'', ''url''] (JObj [(''latest'', JObj [(''url'', JStr ''not a url'')])]) =
     Some (JStr ''not a url'') \<and>
   \<not> url_parses (x_strict (JObj [(''latest'', JObj [(''url'', JStr ''not a url'')])])) ''not a url'' \<and>
   fst (fetch (x_strict (JObj [(''latest'', JObj [(''url'', JStr ''not a url'')])]))
          \<lparr>req_method = ''GET'', pathname = ''/download/latest'', admin_token = None\<rparr> env_ex w_ex) =
     Inl TypeError"
proof -
  let ?m = "JObj [(''latest'', JObj [(''url'', JStr ''not a url'')])]"
  have served: "manifest_of (get_reply (x_strict ?m) (MANIFEST_URL env_ex)) = ?m"
    by (simp add: x_strict_def x_serving_def manifest_of_def ok_def)
  have target: "latestUrl ?m = Some (JStr ''not a url'')"
    by (simp add: latestUrl_def download_url_def latest_url_def nullish_or_def)
  have strict: "\<not> url_parses (x_strict ?m) ''not a url''"
    by (simp add: x_strict_def)
  show ?thesis
    by (simp add: fetch_download_latest Let_def served target strict ok_def)
qed

text \<open>
  C4, as amended. The handler throws instead of returning a response in exactly two
  cases: on \<open>GET /report\<close> with the configured, non-empty admin token when D1 rejects
  one of the four queries (a \<open>StorageError\<close>), and on \<open>GET /download/latest\<close> when the
  redirect target found in the manifest is a non-empty string that \<open>Response.redirect\<close>
  cannot parse (a \<open>TypeError\<close>). Every other request gets a response, and the scheduled
  job always returns normally.
\<close>

theorem fetch_throws_iff:
  "(fst (fetch x request env w) = Inl e \<longleftrightarrow>
      req_method request = ''GET'' \<and> pathname request = ''/report'' \<and> ADMIN_TOKEN env \<noteq> [] \<and>
      admin_token request = Some (ADMIN_TOKEN env) \<and> fails_within 4 w \<and> e = StorageError
    \<or> req_method request = ''GET'' \<and> pathname request = ''/download/latest'' \<and> e = TypeError \<and>
      (\<exists>u. latestUrl (manifest_of (get_reply x (MANIFEST_URL env))) = Some (JStr u) \<and> u \<noteq> [] \<and>
           \<not> url_parses x u)) \<and>
   fst (scheduled x env w) = Inr ()"
proof -
  consider
    (check) "req_method request = ''GET''" "pathname request = ''/update/check''"
  | (download) "req_method request = ''GET''" "pathname request = ''/download/latest''"
  | (report) "req_method request = ''GET''" "pathname request = ''/report''"
  | (other) "\<not> (req_method request = ''GET'' \<and> pathname request = ''/update/check'')"
      "\<not> (req_method request = ''GET'' \<and> pathname request = ''/download/latest'')"
      "\<not> (req_method request = ''GET'' \<and> pathname request = ''/report'')"
    by blast
  then have "fst (fetch x request env w) = Inl e \<longleftrightarrow>
      req_method request = ''GET'' \<and> pathname request = ''/report'' \<and> ADMIN_TOKEN env \<noteq> [] \<and>
      admin_token request = Some (ADMIN_TOKEN env) \<and> fails_within 4 w \<and> e = StorageError
    \<or> req_method request = ''GET'' \<and> pathname request = ''/download/latest'' \<and> e = TypeError \<and>
      (\<exists>u. latestUrl (manifest_of (get_reply x (MANIFEST_URL env))) = Some (JStr u) \<and> u \<noteq> [] \<and>
           \<not> url_parses x u)"
  proof cases
    case check
    then show ?thesis by (simp add: fetch_update_check Let_def)
  next
    case download
    show ?thesis
      using download latestUrl_object [of "manifest_of (get_reply x (MANIFEST_URL env))"]
      by (auto simp: fetch_download_latest [OF download] Let_def split: option.splits json.splits)
  next
    case report
    show ?thesis
      using report by (auto simp: fetch_report [OF report] Let_def split: prod.splits)
  next
    case other
    show ?thesis using other by (auto simp: fetch_other [OF other])
  qed
  then show ?thesis by (simp add: scheduled_returns)
qed

text \<open>
  C4 as it is stated fails on \<open>GET /report\<close> with the valid token when the second of the
  four queries is rejected: the \<open>StorageError\<close> leaves the handler.
\<close>

theorem report_storage_error_counterexample:
  "ADMIN_TOKEN env_ex \<noteq> [] \<and>
   fails_within 4 (w_ex\<lparr>faults := [False, True]\<rparr>) \<and>
   fst (fetch x_down \<lparr>req_method = ''GET'', pathname = ''/report'', admin_token = Some (ADMIN_TOKEN env_ex)\<rparr>
          env_ex (w_ex\<lparr>faults := [False, True]\<rparr>)) = Inl StorageError"
  by (simp add: fetch_report fails_within_def env_ex_def Let_def split: prod.splits)

text \<open>
  C5. On \<open>GET /report\<close> with the \<open>X-Admin-Token\<close> header missing or different from the
  configured secret, or with an empty secret, the handler answers 401 with the body
  \<open>{"ok":false,"error":"unauthorized"}\<close> and the world is untouched: the same table, no
  statement sent to D1, no call added to the trace.
\<close>

theorem report_unauthorized:
  assumes "req_method request = ''GET''" and "pathname request = ''/report''"
    and "admin_token request = None \<or> admin_token request \<noteq> Some (ADMIN_TOKEN env) \<or>
         ADMIN_TOKEN env = []"
  shows "fetch x request env w =
           (Inr (Response 401 (JObj [(''ok'', JBool False), (''error'', JStr ''unauthorized'')])), w)"
  using assms(3) by (auto simp: fetch_report [OF assms(1,2)] unauthorized_def)

theorem report_unauthorized_witness:
  "fetch x_down \<lparr>req_method = ''GET'', pathname = ''/report'', admin_token = None\<rparr> env_ex w_ex =
     (Inr (Response 401 (JObj [(''ok'', JBool False), (''error'', JStr ''unauthorized'')])), w_ex) \<and>
   Some ''guess'' \<noteq> Some (ADMIN_TOKEN env_ex) \<and>
   fetch x_down \<lparr>req_method = ''GET'', pathname = ''/report'', admin_token = Some ''guess''\<rparr> env_ex w_ex =
     (Inr (Response 401 (JObj [(''ok'', JBool False), (''error'', JStr ''unauthorized'')])), w_ex) \<and>
   fetch x_down \<lparr>req_method = ''GET'', pathname = ''/report'', admin_token = Some []\<rparr>
       (env_ex\<lparr>ADMIN_TOKEN := []\<rparr>) w_ex =
     (Inr (Response 401 (JObj [(''ok'', JBool False), (''error'', JStr ''unauthorized'')])), w_ex)"
  using
    report_unauthorized [where request = "\<lparr>req_method = ''GET'', pathname = ''/report'', admin_token = None\<rparr>"
      and env = env_ex and x = x_down and w = w_ex]
    report_unauthorized [where request = "\<lparr>req_method = ''GET'', pathname = ''/report'', admin_token = Some ''guess''\<rparr>"
      and env = env_ex and x = x_down and w = w_ex]
    report_unauthorized [where request = "\<lparr>req_method = ''GET'', pathname = ''/report'', admin_token = Some []\<rparr>"
      and env = "env_ex\<lparr>ADMIN_TOKEN := []\<rparr>" and x = x_down and w = w_ex]
  by (simp add: env_ex_def)

text \<open>
  C6. The scheduled job always returns normally. When D1 rejects one of its three
  queries, what it did is the three queries and then one call of \<open>incrementCounter\<close> for
  \<open>errors\<close> of the current UTC day, with no request to the webhook. When the queries
  succeed and the webhook is not reached or answers with a status outside 200..299, it
  is the three queries, the POST and then one such call. When the POST is delivered the
  table is unchanged. In every case no counter moves but \<open>errors\<close> of the current day,
  and that by at most one.
\<close>

theorem scheduled_failures:
  assumes "today = utcDay (clock x)"
    and "windows (clock x) = (yesterday, sevenDaysAgo, monthStart)"
    and "queries = [Query yesterday yesterday, Query sevenDaysAgo today, Query monthStart today]"
    and "body = JObj [(''content'', JStr (message today yesterday sevenDaysAgo monthStart
                  (hd (sql_select yesterday yesterday (table w)))
                  (hd (sql_select sevenDaysAgo today (table w)))
                  (hd (sql_select monthStart today (table w)))))]"
  shows "fst (scheduled x env w) = Inr () \<and>
         (fails_within 3 w \<longrightarrow>
            trace (snd (scheduled x env w)) = trace w @ queries @ [Increment today Errors]) \<and>
         (\<not> fails_within 3 w \<and> \<not> delivered (post_reply x (DISCORD_WEBHOOK_URL env) body) \<longrightarrow>
            trace (snd (scheduled x env w)) =
              trace w @ queries @ [Post (DISCORD_WEBHOOK_URL env) body, Increment today Errors]) \<and>
         (\<not> fails_within 3 w \<and> delivered (post_reply x (DISCORD_WEBHOOK_URL env) body) \<longrightarrow>
            trace (snd (scheduled x env w)) = trace w @ queries @ [Post (DISCORD_WEBHOOK_URL env) body] \<and>
            table (snd (scheduled x env w)) = table w) \<and>
         counter (table (snd (scheduled x env w))) d c \<le>
           counter (table w) d c + (if d = today \<and> c = Errors then 1 else 0) \<and>
         counter (table w) d c \<le> counter (table (snd (scheduled x env w))) d c"
  unfolding assms(1,3,4)
  by (simp add: scheduled_eq Let_def assms(2) incrementCounter_trace counter_incrementCounter)

theorem scheduled_failures_witness:
  "fails_within 3 (w_ex\<lparr>faults := [False, True]\<rparr>) \<and>
   scheduled x_down env_ex (w_ex\<lparr>faults := [False, True]\<rparr>) =
     (Inr (),
      w_ex\<lparr>table := [\<lparr>update_checks = 7, downloads = 3, errors = 1, day = ''2025-03-14''\<rparr>,
                      \<lparr>update_checks = 2, downloads = 0, errors = 1, day = ''2025-03-15''\<rparr>],
           trace := [Query ''2025-03-14'' ''2025-03-14'', Query ''2025-03-09'' ''2025-03-15'',
                     Query ''2025-03-01'' ''2025-03-15'', Increment ''2025-03-15'' Errors]\<rparr>) \<and>
   \<not> fails_within 3 w_ex \<and>
   \<not> delivered (post_reply x_down (DISCORD_WEBHOOK_URL env_ex)
        (JObj [(''content'', JStr (message ''2025-03-15'' ''2025-03-14'' ''2025-03-09'' ''2025-03-01''
           \<lparr>update_checks = 7, downloads = 3, errors = 1\<rparr>
           \<lparr>update_checks = 9, downloads = 3, errors = 1\<rparr>
           \<lparr>update_checks = 9, downloads = 3, errors = 1\<rparr>))])) \<and>
   fst (scheduled x_down env_ex w_ex) = Inr () \<and>
   trace (snd (scheduled x_down env_ex w_ex)) =
     [Query ''2025-03-14'' ''2025-03-14'', Query ''2025-03-09'' ''2025-03-15'',
      Query ''2025-03-01'' ''2025-03-15'',
      Post ''https://example.com/hook''
        (JObj [(''content'', JStr (message ''2025-03-15'' ''2025-03-14'' ''2025-03-09'' ''2025-03-01''
           \<lparr>update_checks = 7, downloads = 3, errors = 1\<rparr>
           \<lparr>update_checks = 9, downloads = 3, errors = 1\<rparr>
           \<lparr>update_checks = 9, downloads = 3, errors = 1\<rparr>))]),
      Increment ''2025-03-15'' Errors]"
proof -
  have today: "''2025-03-15'' = utcDay (clock x_down)"
    by (simp add: x_down_def utcDay_2025_03_15)
  have win: "windows (clock x_down) = (''2025-03-14'', ''2025-03-09'', ''2025-03-01'')"
    by (simp add: x_down_def windows_2025_03_15)
  have f1: "fails_within 3 (w_ex\<lparr>faults := [False, True]\<rparr>)"
    by (simp add: fails_within_def)
  have f2: "\<not> fails_within 3 w_ex"
    by (simp add: fails_within_def w_ex_def)
  have undelivered: "\<not> delivered (post_reply x_down u b)" for u b
    by (simp add: x_down_def delivered_def)
  have whole: "scheduled x_down env_ex (w_ex\<lparr>faults := [False, True]\<rparr>) =
     (Inr (),
      w_ex\<lparr>table := [\<lparr>update_checks = 7, downloads = 3, errors = 1, day = ''2025-03-14''\<rparr>,
                      \<lparr>update_checks = 2, downloads = 0, errors = 1, day = ''2025-03-15''\<rparr>],
           trace := [Query ''2025-03-14'' ''2025-03-14'', Query ''2025-03-09'' ''2025-03-15'',
                     Query ''2025-03-01'' ''2025-03-15'', Increment ''2025-03-15'' Errors]\<rparr>)"
    using
      scheduled_failures [OF today win refl refl, where env = env_ex
        and w = "w_ex\<lparr>faults := [False, True]\<rparr>", THEN conjunct2, THEN conjunct1] f1
    by (simp add: scheduled_eq today [symmetric] win Let_def f1 incrementCounter_cases
        after_queries_def rejected_def w_ex_def sql_insert_def sql_update_def)
  have sent: "fst (scheduled x_down env_ex w_ex) = Inr () \<and>
      trace (snd (scheduled x_down env_ex w_ex)) =
        [Query ''2025-03-14'' ''2025-03-14'', Query ''2025-03-09'' ''2025-03-15'',
         Query ''2025-03-01'' ''2025-03-15'',
         Post ''https://example.com/hook''
           (JObj [(''content'', JStr (message ''2025-03-15'' ''2025-03-14'' ''2025-03-09'' ''2025-03-01''
              \<lparr>update_checks = 7, downloads = 3, errors = 1\<rparr>
              \<lparr>update_checks = 9, downloads = 3, errors = 1\<rparr>
              \<lparr>update_checks = 9, downloads = 3, errors = 1\<rparr>))]),
         Increment ''2025-03-15'' Errors]"
    using
      scheduled_failures [OF today win refl refl, where env = env_ex and w = w_ex] f2 undelivered
    by (simp add: w_ex_sums) (simp add: env_ex_def w_ex_def)
  from f1 f2 undelivered whole sent show ?thesis by simp
qed

text \<open>
  C7. For a clock reading \<open>now\<close> at or after the epoch, \<open>yesterday\<close> is the day key of the
  instant one day earlier (its day number is one less), \<open>sevenDaysAgo\<close> the day key of
  the instant six days earlier (six less: seven days with today), and \<open>monthStart\<close> is
  today's key with the day of the month replaced by 01. On 2025-03-01 (day number
  20148) the three are 2025-02-28, 2025-02-23 and 2025-03-01; on 2025-03-15 (day number
  20162) they are 2025-03-14, 2025-03-09 and 2025-03-01.
\<close>

theorem report_windows:
  assumes "0 \<le> now"
  shows "windows now =
           (utcDay (now - msPerDay), utcDay (now - 6 * msPerDay),
            take 10 (iso_date (YearFromTime now) (MonthFromTime now) 1)) \<and>
         utcDay now = take 10 (iso_date (YearFromTime now) (MonthFromTime now) (DateFromTime now)) \<and>
         Day (now - msPerDay) = Day now - 1 \<and> Day (now - 6 * msPerDay) = Day now - 6 \<and>
         (Day now = 20148 \<longrightarrow>
            utcDay now = ''2025-03-01'' \<and>
            windows now = (''2025-02-28'', ''2025-02-23'', ''2025-03-01'')) \<and>
         (Day now = 20162 \<longrightarrow>
            utcDay now = ''2025-03-15'' \<and>
            windows now = (''2025-03-14'', ''2025-03-09'', ''2025-03-01''))"
proof -
  have 1: "Day (now - msPerDay) = Day now - 1"
    using Day_shift [of now 1] by simp
  have 2: "utcDay now = ''2025-03-01'' \<and> windows now = (''2025-02-28'', ''2025-02-23'', ''2025-03-01'')"
    if "Day now = 20148"
    using that utcDay_Day [of now 1740787200000] windows_Day [of now 1740787200000]
    by (simp add: Day_2025_03_01 utcDay_2025_03_01 windows_2025_03_01)
  have 3: "utcDay now = ''2025-03-15'' \<and> windows now = (''2025-03-14'', ''2025-03-09'', ''2025-03-01'')"
    if "Day now = 20162"
    using that utcDay_Day [of now 1741996800000] windows_Day [of now 1741996800000]
    by (simp add: Day_2025_03_15 utcDay_2025_03_15 windows_2025_03_15)
  have 4: "Day (now - 6 * msPerDay) = Day now - 6"
    by (rule Day_shift)
  have 5: "windows now =
      (utcDay (now - msPerDay), utcDay (now - 6 * msPerDay),
       take 10 (iso_date (YearFromTime now) (MonthFromTime now) 1))"
    by (simp only: windows_shift utcMonthStart_iso [OF assms])
  have 6: "utcDay now = take 10 (iso_date (YearFromTime now) (MonthFromTime now) (DateFromTime now))"
    by (rule utcDay_iso)
  from 1 2 3 4 5 6 show ?thesis by blast
qed

theorem report_windows_witness:
  "(0::int) \<le> 1741996800000 \<and> Day 1741996800000 = 20162 \<and>
   utcDay 1741996800000 = ''2025-03-15'' \<and>
   windows 1741996800000 = (''2025-03-14'', ''2025-03-09'', ''2025-03-01'') \<and>
   Day (1741996800000 - 6 * msPerDay) = 20156 \<and>
   (0::int) \<le> 1740787200000 \<and> Day 1740787200000 = 20148 \<and>
   utcDay 1740787200000 = ''2025-03-01'' \<and>
   windows 1740787200000 = (''2025-02-28'', ''2025-02-23'', ''2025-03-01'')"
proof -
  have mid: "(0::int) \<le> 1741996800000" and start: "(0::int) \<le> 1740787200000"
    by simp_all
  have "Day 1741996800000 = 20162 \<longrightarrow>
      utcDay 1741996800000 = ''2025-03-15'' \<and>
      windows 1741996800000 = (''2025-03-14'', ''2025-03-09'', ''2025-03-01'')"
    and "Day (1741996800000 - 6 * msPerDay) = Day 1741996800000 - 6"
    using report_windows [OF mid] by blast+
  moreover have "Day 1740787200000 = 20148 \<longrightarrow>
      utcDay 1740787200000 = ''2025-03-01'' \<and>
      windows 1740787200000 = (''2025-02-28'', ''2025-02-23'', ''2025-03-01'')"
    using report_windows [OF start] by blast
  ultimately show ?thesis
    by (simp add: Day_2025_03_15 Day_2025_03_01)
qed

text \<open>
  C8. A query over a range that holds no row, which a range with \<open>endDay < startDay\<close>
  always is, returns the three zeros and leaves the table alone. It throws exactly when
  D1 rejects the statement, whatever the rows are: a missing row is never an error.
\<close>

theorem queryTotals_no_rows:
  assumes "b < a \<or> (\<forall>r\<in>set (table w). \<not> (a \<le> day r \<and> day r \<le> b))"
  shows "(\<not> rejected w \<longrightarrow>
            fst (queryTotals a b w) = Inr \<lparr>update_checks = 0, downloads = 0, errors = 0\<rparr>) \<and>
         (isl (fst (queryTotals a b w)) \<longleftrightarrow> rejected w) \<and>
         table (snd (queryTotals a b w)) = table w"
proof -
  from assms have "\<forall>r\<in>set (table w). \<not> in_range a b r"
    by (auto simp: in_range_def)
  then have "filter (in_range a b) (table w) = []"
    by (simp add: filter_empty_conv)
  then show ?thesis
    by (simp add: queryTotals_cases sql_select_eq)
qed

theorem queryTotals_no_rows_witness:
  "filter (\<lambda>r. ''2025-03-16'' \<le> day r \<and> day r \<le> ''2025-03-31'') (table w_ex) = [] \<and>
   \<not> rejected w_ex \<and>
   fst (queryTotals ''2025-03-16'' ''2025-03-31'' w_ex) = Inr \<lparr>update_checks = 0, downloads = 0, errors = 0\<rparr> \<and>
   ''2025-03-01'' < ''2025-03-31'' \<and>
   fst (queryTotals ''2025-03-31'' ''2025-03-01'' w_ex) = Inr \<lparr>update_checks = 0, downloads = 0, errors = 0\<rparr>"
  using queryTotals_no_rows [where a = "''2025-03-16''" and b = "''2025-03-31''" and w = w_ex]
    queryTotals_no_rows [where a = "''2025-03-31''" and b = "''2025-03-01''" and w = w_ex]
  by (simp add: w_ex_def rejected_def)

text \<open>
  C9. Let every row of the table be keyed by a day key of the years 1970 to 9999 (the
  keys \<open>incrementCounter\<close> is called with: see \<open>fetch_days\<close> and \<open>scheduled_days\<close>), and let
  \<open>a \<le> m < b\<close> be such day keys. If the three queries over \<open>a..m\<close>, over the day after
  \<open>m\<close> up to \<open>b\<close>, and over \<open>a..b\<close> return, then each counter of the third result is the
  sum of that counter in the first two.
\<close>

theorem sumRange_additive:
  assumes rows: "\<forall>r\<in>set (table w). \<exists>t. in_era t \<and> day r = utcDay t"
    and era: "in_era ta" "in_era tm" "in_era tb"
    and ord: "utcDay ta \<le> utcDay tm" "utcDay tm < utcDay tb"
    and q1: "queryTotals (utcDay ta) (utcDay tm) w = (Inr s1, w1)"
    and q2: "queryTotals (utcDay (tm + msPerDay)) (utcDay tb) w1 = (Inr s2, w2)"
    and q3: "queryTotals (utcDay ta) (utcDay tb) w2 = (Inr s3, w3)"
  shows "update_checks s1 + update_checks s2 = update_checks s3 \<and>
         downloads s1 + downloads s2 = downloads s3 \<and>
         errors s1 + errors s2 = errors s3"
proof -
  have am: "Day ta \<le> Day tm"
    using ord(1) by (simp add: utcDay_le_iff era)
  have mb: "Day tm < Day tb"
    using ord(2) by (simp add: utcDay_less_iff era)
  note nxt = in_era_next [OF era(2,3) mb]
  have split: "(in_range (utcDay ta) (utcDay tb) r \<longleftrightarrow>
        in_range (utcDay ta) (utcDay tm) r \<or> in_range (utcDay (tm + msPerDay)) (utcDay tb) r) \<and>
      \<not> (in_range (utcDay ta) (utcDay tm) r \<and> in_range (utcDay (tm + msPerDay)) (utcDay tb) r)"
    if "r \<in> set (table w)" for r
  proof -
    from rows that obtain t where t: "in_era t" "day r = utcDay t" by blast
    show ?thesis
      using am mb
      by (auto simp: in_range_def t(2) utcDay_le_iff t(1) era nxt)
  qed
  from q1 have s1: "s1 = hd (sql_select (utcDay ta) (utcDay tm) (table w))" and w1: "table w1 = table w"
    by (auto dest: queryTotals_Inr)
  from q2 have s2: "s2 = hd (sql_select (utcDay (tm + msPerDay)) (utcDay tb) (table w))"
    and w2: "table w2 = table w"
    by (auto dest: queryTotals_Inr simp: w1)
  from q3 have s3: "s3 = hd (sql_select (utcDay ta) (utcDay tb) (table w))"
    by (auto dest: queryTotals_Inr simp: w2)
  have "sum_list (map f (filter (in_range (utcDay ta) (utcDay tb)) (table w))) =
      sum_list (map f (filter (in_range (utcDay ta) (utcDay tm)) (table w))) +
      sum_list (map f (filter (in_range (utcDay (tm + msPerDay)) (utcDay tb)) (table w)))"
    for f :: "metrics \<Rightarrow> nat"
    by (rule sum_filter_split) (use split in blast)
  then show ?thesis
    by (simp add: s1 s2 s3 sql_select_eq)
qed

theorem sumRange_additive_witness:
  "in_era 1740787200000 \<and> in_era 1741910400000 \<and> in_era 1741996800000 \<and>
   map day (table w_ex) = [utcDay 1741910400000, utcDay 1741996800000] \<and>
   utcDay 1740787200000 \<le> utcDay 1741910400000 \<and> utcDay 1741910400000 < utcDay 1741996800000 \<and>
   fst (queryTotals ''2025-03-01'' ''2025-03-14'' w_ex) =
     Inr \<lparr>update_checks = 7, downloads = 3, errors = 1\<rparr> \<and>
   fst (queryTotals ''2025-03-15'' ''2025-03-15'' w_ex) =
     Inr \<lparr>update_checks = 2, downloads = 0, errors = 0\<rparr> \<and>
   fst (queryTotals ''2025-03-01'' ''2025-03-15'' w_ex) =
     Inr \<lparr>update_checks = 9, downloads = 3, errors = 1\<rparr> \<and>
   (7::nat) + 2 = 9 \<and> (3::nat) + 0 = 3 \<and> (1::nat) + 0 = 1"
proof -
  let ?ta = "1740787200000 :: int" and ?tm = "1741910400000 :: int" and ?tb = "1741996800000 :: int"
  let ?w1 = "w_ex\<lparr>trace := [Query ''2025-03-01'' ''2025-03-14'']\<rparr>"
  let ?w2 = "w_ex\<lparr>trace := [Query ''2025-03-01'' ''2025-03-14'', Query ''2025-03-15'' ''2025-03-15'']\<rparr>"
  let ?w3 = "w_ex\<lparr>trace := [Query ''2025-03-01'' ''2025-03-14'', Query ''2025-03-15'' ''2025-03-15'',
                              Query ''2025-03-01'' ''2025-03-15'']\<rparr>"
  have era: "in_era ?ta" "in_era ?tm" "in_era ?tb"
    by (simp_all add: in_era_def Day_def msPerDay_def)
  have keys: "utcDay ?ta = ''2025-03-01''" "utcDay ?tm = ''2025-03-14''" "utcDay ?tb = ''2025-03-15''"
    "utcDay (?tm + msPerDay) = ''2025-03-15''"
    by (simp_all add: utcDay_2025_03_01 utcDay_2025_03_14 utcDay_2025_03_15 msPerDay_def)
  have days: "map day (table w_ex) = [utcDay ?tm, utcDay ?tb]"
    by (simp add: keys w_ex_def)
  have rows: "\<forall>r\<in>set (table w_ex). \<exists>t. in_era t \<and> day r = utcDay t"
  proof
    fix r assume "r \<in> set (table w_ex)"
    then have "day r \<in> set (map day (table w_ex))" by simp
    then have "day r = utcDay ?tm \<or> day r = utcDay ?tb"
      by (simp only: days) simp
    with era show "\<exists>t. in_era t \<and> day r = utcDay t" by blast
  qed
  have ord: "utcDay ?ta \<le> utcDay ?tm" "utcDay ?tm < utcDay ?tb"
    by (simp_all add: keys)
  have q1: "queryTotals (utcDay ?ta) (utcDay ?tm) w_ex = (Inr \<lparr>update_checks = 7, downloads = 3, errors = 1\<rparr>, ?w1)"
    by (simp add: keys queryTotals_cases sql_select_eq in_range_def rejected_def w_ex_def)
  have q2: "queryTotals (utcDay (?tm + msPerDay)) (utcDay ?tb) ?w1 = (Inr \<lparr>update_checks = 2, downloads = 0, errors = 0\<rparr>, ?w2)"
    by (simp add: keys queryTotals_cases sql_select_eq in_range_def rejected_def w_ex_def)
  have q3: "queryTotals (utcDay ?ta) (utcDay ?tb) ?w2 = (Inr \<lparr>update_checks = 9, downloads = 3, errors = 1\<rparr>, ?w3)"
    by (simp add: keys queryTotals_cases sql_select_eq in_range_def rejected_def w_ex_def)
  have firsts: "fst (queryTotals ''2025-03-01'' ''2025-03-14'' w_ex) = Inr \<lparr>update_checks = 7, downloads = 3, errors = 1\<rparr>"
    "fst (queryTotals ''2025-03-15'' ''2025-03-15'' w_ex) = Inr \<lparr>update_checks = 2, downloads = 0, errors = 0\<rparr>"
    "fst (queryTotals ''2025-03-01'' ''2025-03-15'' w_ex) = Inr \<lparr>update_checks = 9, downloads = 3, errors = 1\<rparr>"
    by (simp_all add: queryTotals_cases sql_select_eq in_range_def rejected_def w_ex_def)
  from sumRange_additive [OF rows era ord q1 q2 q3] era days ord firsts
  show ?thesis by simp
qed

text \<open>
  C10. \<open>incrementCounter d c\<close> leaves every row of another day as it was, and on the row
  of \<open>d\<close> the two other counters: if the row was there they keep their values, if it
  was not the row is either still missing (the insert was rejected) or there with both
  at 0. When the call succeeds the row exists, counter \<open>c\<close> is one more than before and
  the other two are what they were (0 for a new row).
\<close>

theorem incrementCounter_frame:
  "filter (\<lambda>r. day r \<noteq> d) (table (snd (incrementCounter d c w))) = filter (\<lambda>r. day r \<noteq> d) (table w) \<and>
   (\<forall>c'. c' \<noteq> c \<longrightarrow>
      (case row_of d (table w) of
         Some r \<Rightarrow> map_option (col c') (row_of d (table (snd (incrementCounter d c w)))) = Some (col c' r)
       | None \<Rightarrow> map_option (col c') (row_of d (table (snd (incrementCounter d c w)))) \<in> {None, Some 0})) \<and>
   (fst (incrementCounter d c w) = Inr () \<longrightarrow>
      map_option (col c) (row_of d (table (snd (incrementCounter d c w)))) = Some (counter (table w) d c + 1) \<and>
      (\<forall>c'. c' \<noteq> c \<longrightarrow> map_option (col c') (row_of d (table (snd (incrementCounter d c w)))) = Some (counter (table w) d c')))"
  by (auto simp: incrementCounter_cases filter_other_insert filter_other_update row_of_update
      row_of_insert col_bump col_zero counter_def not_in_days split: option.splits)

theorem incrementCounter_frame_witness:
  "filter (\<lambda>r. day r \<noteq> ''2025-03-15'') (table (snd (incrementCounter ''2025-03-15'' Downloads w_ex))) =
     [\<lparr>update_checks = 7, downloads = 3, errors = 1, day = ''2025-03-14''\<rparr>] \<and>
   Update_checks \<noteq> Downloads \<and>
   row_of ''2025-03-15'' (table w_ex) = Some \<lparr>update_checks = 2, downloads = 0, errors = 0, day = ''2025-03-15''\<rparr> \<and>
   map_option (col Update_checks) (row_of ''2025-03-15'' (table (snd (incrementCounter ''2025-03-15'' Downloads w_ex)))) = Some 2 \<and>
   fst (incrementCounter ''2025-03-15'' Downloads w_ex) = Inr () \<and>
   map_option (col Downloads) (row_of ''2025-03-15'' (table (snd (incrementCounter ''2025-03-15'' Downloads w_ex)))) = Some 1"
  using incrementCounter_frame [of "''2025-03-15''" Downloads w_ex]
  by (simp add: w_ex_def incrementCounter_cases rejected_def row_of_def counter_def
      sql_insert_def sql_update_def)

end
